theory Spec2Isabelle
  imports Main "HOL-Library.Word" "HOL-Library.Multiset"
begin

section \<open>The Kanban board model of KanbanApplication.jsx\<close>

text \<open>
  The model below embeds the three classes \<open>KanbanModelItem\<close>, \<open>KanbanModelList\<close> and
  \<open>KanbanModel\<close> of \<^verbatim>\<open>src/apps/KanbanApplication.jsx\<close> (lines 11 to 149), together with the
  fragment of JavaScript they rely on: strings as sequences of UTF-16 code units,
  \<^verbatim>\<open>String.prototype.split\<close>, \<^verbatim>\<open>Array.prototype.join\<close>, \<^verbatim>\<open>Array.prototype.splice\<close> and a
  backtracking matcher for the three regular expressions of \<open>deserialize\<close>.
\<close>

subsection \<open>JavaScript strings\<close>

text \<open>
  A JavaScript string is a sequence of 16-bit code units. \<open>js\<close> turns an Isabelle string
  literal (characters 0 to 255) into such a sequence, so that the examples of the
  specification can be written down.
\<close>

type_synonym code_unit = "16 word"
type_synonym js_string = "code_unit list"

definition js :: "string \<Rightarrow> js_string" where
  "js s = map of_char s"

definition nl :: code_unit where
  "nl = 0x0A"

definition star :: code_unit where
  "star = 0x2A"

definition space :: code_unit where
  "space = 0x20"

text \<open>
  \<^verbatim>\<open>str.split('\n')\<close>: the pieces between the newlines; the empty string gives one
  empty piece. The last branch of the \<open>case\<close> is never taken (a split is never empty).
\<close>

fun split_nl :: "js_string \<Rightarrow> js_string list" where
  "split_nl [] = [[]]"
| "split_nl (c # s) =
     (if c = nl then [] # split_nl s
      else (case split_nl s of l # ls \<Rightarrow> (c # l) # ls | [] \<Rightarrow> [[c]]))"

text \<open>\<^verbatim>\<open>array.join('\n')\<close>: the empty array gives the empty string.\<close>

fun join_nl :: "js_string list \<Rightarrow> js_string" where
  "join_nl [] = []"
| "join_nl [l] = l"
| "join_nl (l # ls) = l @ nl # join_nl ls"

text \<open>\<^verbatim>\<open>repeat\<close> of lodash, on a count that is a natural number.\<close>

definition repeat :: "js_string \<Rightarrow> nat \<Rightarrow> js_string" where
  "repeat s n = concat (replicate n s)"

subsection \<open>Regular expressions\<close>

text \<open>
  The character classes used by the three patterns, as ECMAScript defines them on code
  units: \<^verbatim>\<open>\s\<close> is WhiteSpace or LineTerminator, \<^verbatim>\<open>.\<close> is anything but a
  LineTerminator, \<^verbatim>\<open>[*-]\<close> and \<^verbatim>\<open>[*_]\<close> are two-element sets. WhiteSpace is tab,
  vertical tab, form feed, space, no-break space, the byte order mark and the space
  separators of Unicode.
\<close>

definition is_line_terminator :: "code_unit \<Rightarrow> bool" where
  "is_line_terminator c \<longleftrightarrow> c = 0x0A \<or> c = 0x0D \<or> c = 0x2028 \<or> c = 0x2029"

definition is_white_space :: "code_unit \<Rightarrow> bool" where
  "is_white_space c \<longleftrightarrow>
     c = 0x09 \<or> c = 0x0B \<or> c = 0x0C \<or> c = 0x20 \<or> c = 0xA0 \<or> c = 0xFEFF \<or>
     c = 0x1680 \<or> (0x2000 \<le> c \<and> c \<le> 0x200A) \<or> c = 0x202F \<or> c = 0x205F \<or> c = 0x3000"

datatype cls = Space | AnyChar | Bullet | Marker

fun cls_match :: "cls \<Rightarrow> code_unit \<Rightarrow> bool" where
  "cls_match Space c = (is_white_space c \<or> is_line_terminator c)"
| "cls_match AnyChar c = (\<not> is_line_terminator c)"
| "cls_match Bullet c = (c = 0x2A \<or> c = 0x2D)"
| "cls_match Marker c = (c = 0x2A \<or> c = 0x5F)"

text \<open>
  A pattern is a sequence of nodes: the assertions \<^verbatim>\<open>^\<close> and \<^verbatim>\<open>$\<close> (no multiline
  flag), one character of a class, a class under the greedy \<^verbatim>\<open>*\<close> or \<^verbatim>\<open>+\<close> or the
  lazy \<^verbatim>\<open>*?\<close>, and the parentheses of capture group \<open>i\<close>.
\<close>

datatype node = Bol | Eol | One cls | Star cls | Plus cls | LazyStar cls | Open nat | Close nat

type_synonym regex = "node list"
type_synonym captures = "js_string option list"

text \<open>
  The backtracking matcher. \<open>run r at_start s opens caps\<close> matches the rest \<open>r\<close> of the
  pattern against the rest \<open>s\<close> of the input; \<open>at_start\<close> tells whether \<open>s\<close> is the whole
  input, \<open>opens\<close> holds the input rests at which the open groups started, and \<open>caps\<close> the
  captures so far (\<open>None\<close> is \<^verbatim>\<open>undefined\<close>). A greedy quantifier tries one more
  character before it tries the rest of the pattern, a lazy one the other way round.
\<close>

fun run :: "regex \<Rightarrow> bool \<Rightarrow> js_string \<Rightarrow> js_string list \<Rightarrow> captures \<Rightarrow> captures option" where
  "run [] b s os cs = Some cs"
| "run (Bol # r) b s os cs = (if b then run r b s os cs else None)"
| "run (Eol # r) b s os cs = (if s = [] then run r b s os cs else None)"
| "run (One k # r) b [] os cs = None"
| "run (One k # r) b (c # s) os cs = (if cls_match k c then run r False s os cs else None)"
| "run (Star k # r) b [] os cs = run r b [] os cs"
| "run (Star k # r) b (c # s) os cs =
     (if cls_match k c
      then (case run (Star k # r) False s os cs of
              Some m \<Rightarrow> Some m
            | None \<Rightarrow> run r b (c # s) os cs)
      else run r b (c # s) os cs)"
| "run (Plus k # r) b [] os cs = None"
| "run (Plus k # r) b (c # s) os cs =
     (if cls_match k c then run (Star k # r) False s os cs else None)"
| "run (LazyStar k # r) b [] os cs = run r b [] os cs"
| "run (LazyStar k # r) b (c # s) os cs =
     (case run r b (c # s) os cs of
        Some m \<Rightarrow> Some m
      | None \<Rightarrow> if cls_match k c then run (LazyStar k # r) False s os cs else None)"
| "run (Open i # r) b s os cs = run r b s (s # os) cs"
| "run (Close i # r) b s [] cs = None"
| "run (Close i # r) b s (g # os) cs =
     run r b s os (cs[i := Some (take (length g - length s) g)])"

text \<open>
  \<^verbatim>\<open>str.match(re)\<close> for a pattern without the global flag: the match is tried at every
  index from 0 on, and the first success gives the array of the whole match (index 0) and
  of the groups; no success gives \<^verbatim>\<open>null\<close>.
\<close>

fun ngroups :: "regex \<Rightarrow> nat" where
  "ngroups [] = 0"
| "ngroups (Open i # r) = Suc (ngroups r)"
| "ngroups (n # r) = ngroups r"

fun exec_from :: "regex \<Rightarrow> bool \<Rightarrow> js_string \<Rightarrow> captures option" where
  "exec_from re b [] = run (Open 0 # re @ [Close 0]) b [] [] (replicate (Suc (ngroups re)) None)"
| "exec_from re b (c # s) =
     (case run (Open 0 # re @ [Close 0]) b (c # s) [] (replicate (Suc (ngroups re)) None) of
        Some m \<Rightarrow> Some m
      | None \<Rightarrow> exec_from re False s)"

definition js_match :: "js_string \<Rightarrow> regex \<Rightarrow> captures option" where
  "js_match s re = exec_from re True s"

text \<open>\<open>m[i]\<close> on a match array: \<^verbatim>\<open>undefined\<close> for a group that did not take part.\<close>

definition grp :: "captures \<Rightarrow> nat \<Rightarrow> js_string option" where
  "grp m i = (if i < length m then m ! i else None)"

text \<open>The three patterns of \<open>deserialize\<close> (lines 121 to 123).\<close>

definition reList :: regex where
  "reList = [Bol, One Bullet, Star Space, Open 1, Star AnyChar, Close 1, Eol]"

definition reItem :: regex where
  "reItem = [Bol, Plus Space, One Bullet, Star Space, Open 1, Star AnyChar, Close 1, Eol]"

definition reText :: regex where
  "reText = [Bol, Open 1, Star Marker, Close 1, Open 2, LazyStar AnyChar, Close 2,
             Open 3, Star Marker, Close 3, Eol]"

subsection \<open>Arrays\<close>

text \<open>
  \<^verbatim>\<open>array.splice(start, deleteCount, ...new)\<close> on an integer \<open>start\<close>: a negative start
  counts from the end, and both the start and the delete count are clamped to the array.
  \<^verbatim>\<open>array[index]\<close> is \<^verbatim>\<open>undefined\<close> (\<open>None\<close>) out of range.
\<close>

definition splice_start :: "int \<Rightarrow> nat \<Rightarrow> nat" where
  "splice_start start len =
     (if start < 0 then nat (max (int len + start) 0) else min (nat start) len)"

definition splice :: "int \<Rightarrow> nat \<Rightarrow> 'a list \<Rightarrow> 'a list \<Rightarrow> 'a list" where
  "splice start deleteCount new xs =
     (let k = splice_start start (length xs);
          d = min deleteCount (length xs - k)
      in take k xs @ new @ drop (k + d) xs)"

definition at_index :: "'a list \<Rightarrow> int \<Rightarrow> 'a option" where
  "at_index xs index =
     (if 0 \<le> index \<and> index < int (length xs) then Some (xs ! nat index) else None)"

subsection \<open>Items, lists and boards\<close>

text \<open>
  The importance of an Item is a natural number: the program only ever stores the default 0
  and the minimum of 3 and two string lengths. A Board owns its Lists and a List its Items
  (no List object sits at two indices), so that changing a List in place is the update of
  the sequence at its index.
\<close>

record KanbanModelItem =
  item_name :: js_string
  importance :: nat

record KanbanModelList =
  list_name :: js_string
  items :: "KanbanModelItem list"

record KanbanModel =
  lists :: "KanbanModelList list"

text \<open>
  \<open>TypeError\<close> is the exception of a property read on \<^verbatim>\<open>undefined\<close> or \<^verbatim>\<open>null\<close>.
  \<open>Undefined_value\<close> is no exception: it marks the places where the source would go on
  and store \<^verbatim>\<open>undefined\<close> as a name or as an Item, a value the records above do not
  hold. The lemmas \<open>deserialize_try_Inr\<close> and \<open>moveItem_in_range\<close> show that no input to
  \<open>deserialize\<close> and no in-range move reaches such a place.
\<close>

datatype js_error = TypeError | Undefined_value

definition new_KanbanModelItem :: "js_string \<Rightarrow> nat \<Rightarrow> KanbanModelItem" where
  "new_KanbanModelItem n k = \<lparr>item_name = n, importance = k\<rparr>"

definition new_KanbanModelList :: "js_string \<Rightarrow> KanbanModelList" where
  "new_KanbanModelList n = \<lparr>list_name = n, items = []\<rparr>"

definition new_KanbanModel :: KanbanModel where
  "new_KanbanModel = \<lparr>lists = []\<rparr>"

definition item_toMarkdown :: "KanbanModelItem \<Rightarrow> js_string" where
  "item_toMarkdown i =
     (let emphasis = repeat [star] (importance i) in emphasis @ item_name i @ emphasis)"

definition addItem :: "js_string \<Rightarrow> nat \<Rightarrow> KanbanModelList \<Rightarrow> KanbanModelList" where
  "addItem text k l = l\<lparr>items := items l @ [new_KanbanModelItem text k]\<rparr>"

definition insertItem :: "int \<Rightarrow> KanbanModelItem \<Rightarrow> KanbanModelList \<Rightarrow> KanbanModelList" where
  "insertItem index item l = l\<lparr>items := splice index 0 [item] (items l)\<rparr>"

definition list_getLength :: "KanbanModelList \<Rightarrow> nat" where
  "list_getLength l = length (items l)"

definition getItemAt :: "KanbanModelList \<Rightarrow> int \<Rightarrow> KanbanModelItem option" where
  "getItemAt l index = at_index (items l) index"

definition removeItemAt :: "int \<Rightarrow> KanbanModelList \<Rightarrow> KanbanModelList" where
  "removeItemAt index l = l\<lparr>items := splice index 1 [] (items l)\<rparr>"

definition list_toMarkdown :: "KanbanModelList \<Rightarrow> js_string" where
  "list_toMarkdown l =
     join_nl ((star # space # list_name l)
              # map (\<lambda>i. space # space # star # space # item_toMarkdown i) (items l))"

definition addList :: "js_string \<Rightarrow> KanbanModel \<Rightarrow> KanbanModel" where
  "addList str m = m\<lparr>lists := lists m @ [new_KanbanModelList str]\<rparr>"

definition getLength :: "KanbanModel \<Rightarrow> nat" where
  "getLength m = length (lists m)"

definition getListAt :: "KanbanModel \<Rightarrow> int \<Rightarrow> KanbanModelList option" where
  "getListAt m index = at_index (lists m) index"

text \<open>
  \<open>moveItem\<close> (lines 92 to 97). \<open>fromList\<close> is changed in place before the destination is
  looked up, so a move inside one List inserts into the List as it is after the removal.
  The exception of a missing destination List is thrown after the removal; the caller
  (\<open>updateKanban\<close>) then drops the Board, so the model returns the error alone.
\<close>

definition moveItem :: "int \<Rightarrow> int \<Rightarrow> int \<Rightarrow> int \<Rightarrow> KanbanModel \<Rightarrow> js_error + KanbanModel" where
  "moveItem fromListIndex fromItemIndex toListIndex toItemIndex m =
     (case getListAt m fromListIndex of
        None \<Rightarrow> Inl TypeError
      | Some fromList \<Rightarrow>
          (let item = getItemAt fromList fromItemIndex;
               m1 = m\<lparr>lists := (lists m)[nat fromListIndex :=
                                           removeItemAt fromItemIndex fromList]\<rparr>
           in case getListAt m1 toListIndex of
                None \<Rightarrow> Inl TypeError
              | Some toList \<Rightarrow>
                  (case item of
                     None \<Rightarrow> Inl Undefined_value
                   | Some i \<Rightarrow>
                       Inr (m1\<lparr>lists := (lists m1)[nat toListIndex :=
                                                  insertItem toItemIndex i toList]\<rparr>))))"

text \<open>
  \<open>equals\<close> is \<^verbatim>\<open>isEqual\<close> of lodash on two Boards: arrays are equal when they have the
  same length and equal elements index by index, objects of one class when their fields
  are equal, and strings and numbers when they are the same value.
\<close>

fun equalArrays :: "('a \<Rightarrow> 'a \<Rightarrow> bool) \<Rightarrow> 'a list \<Rightarrow> 'a list \<Rightarrow> bool" where
  "equalArrays eq [] [] = True"
| "equalArrays eq (x # xs) (y # ys) = (eq x y \<and> equalArrays eq xs ys)"
| "equalArrays eq xs ys = False"

definition item_isEqual :: "KanbanModelItem \<Rightarrow> KanbanModelItem \<Rightarrow> bool" where
  "item_isEqual a b \<longleftrightarrow> item_name a = item_name b \<and> importance a = importance b"

definition list_isEqual :: "KanbanModelList \<Rightarrow> KanbanModelList \<Rightarrow> bool" where
  "list_isEqual a b \<longleftrightarrow> list_name a = list_name b \<and> equalArrays item_isEqual (items a) (items b)"

definition equals :: "KanbanModel \<Rightarrow> KanbanModel \<Rightarrow> bool" where
  "equals a b \<longleftrightarrow> equalArrays list_isEqual (lists a) (lists b)"

definition serialize :: "KanbanModel \<Rightarrow> js_string" where
  "serialize m = join_nl (map list_toMarkdown (lists m))"

subsection \<open>deserialize\<close>

text \<open>
  Lines 136 to 140: the item's text is matched against \<open>reText\<close>; reading a group of a
  \<^verbatim>\<open>null\<close> match throws a TypeError. A group that is \<^verbatim>\<open>undefined\<close> or empty is
  falsy and counts 0. \<open>item_of_text\<close> gives, as an Item, the name and the importance that
  line 140 hands to \<open>addItem\<close>.
\<close>

definition emp :: "js_string option \<Rightarrow> nat" where
  "emp g = (case g of None \<Rightarrow> 0 | Some t \<Rightarrow> if t = [] then 0 else length t)"

definition item_of_text :: "js_string \<Rightarrow> js_error + KanbanModelItem" where
  "item_of_text t =
     (case js_match t reText of
        None \<Rightarrow> Inl TypeError
      | Some matchText \<Rightarrow>
          (let empLeft = emp (grp matchText 1);
               empRight = emp (grp matchText 3);
               k = min 3 (min empLeft empRight)
           in case grp matchText 2 of
                None \<Rightarrow> Inl Undefined_value
              | Some n \<Rightarrow> Inr (new_KanbanModelItem n k)))"

text \<open>
  The callback of \<open>lines.forEach\<close> (lines 126 to 143), on the model built so far. The List
  at index \<open>listLength - 1\<close> is changed in place.
\<close>

definition deserialize_line :: "js_string \<Rightarrow> KanbanModel \<Rightarrow> js_error + KanbanModel" where
  "deserialize_line l model =
     (case js_match l reList of
        Some matchList \<Rightarrow>
          (case grp matchList 1 of
             None \<Rightarrow> Inl Undefined_value
           | Some n \<Rightarrow> Inr (addList n model))
      | None \<Rightarrow>
          (case js_match l reItem of
             None \<Rightarrow> Inr model
           | Some matchItem \<Rightarrow>
               (let listLength = getLength model in
                if listLength \<noteq> 0 then
                  (case grp matchItem 1 of
                     None \<Rightarrow> Inl TypeError
                   | Some t \<Rightarrow>
                       (case item_of_text t of
                          Inl ex \<Rightarrow> Inl ex
                        | Inr i \<Rightarrow>
                            (case getListAt model (int listLength - 1) of
                               None \<Rightarrow> Inl TypeError
                             | Some lst \<Rightarrow>
                                 Inr (model\<lparr>lists := (lists model)
                                        [listLength - 1 :=
                                           addItem (item_name i) (importance i) lst]\<rparr>))))
                else Inr model)))"

text \<open>\<open>lines.forEach\<close>: an exception thrown by the callback ends the loop.\<close>

fun forEach_line :: "js_string list \<Rightarrow> KanbanModel \<Rightarrow> js_error + KanbanModel" where
  "forEach_line [] model = Inr model"
| "forEach_line (l # ls) model =
     (case deserialize_line l model of
        Inl ex \<Rightarrow> Inl ex
      | Inr model' \<Rightarrow> forEach_line ls model')"

text \<open>The \<^verbatim>\<open>try\<close> block of \<open>deserialize\<close>, and the whole function with its handler.\<close>

definition deserialize_try :: "js_string \<Rightarrow> js_error + KanbanModel" where
  "deserialize_try str = forEach_line (split_nl str) new_KanbanModel"

definition catch_all :: "js_error + KanbanModel \<Rightarrow> KanbanModel" where
  "catch_all r = (case r of Inr model \<Rightarrow> model | Inl ex \<Rightarrow> new_KanbanModel)"

definition deserialize :: "js_string \<Rightarrow> KanbanModel" where
  "deserialize str = catch_all (deserialize_try str)"

subsection \<open>Notions used to state the properties\<close>

text \<open>
  The reading of the three patterns on a line: a list line is a bullet, white space and a
  name without line terminator; an item line is white space, a bullet, white space and
  such a text.
\<close>

definition list_line :: "js_string \<Rightarrow> js_string option" where
  "list_line l =
     (case l of
        [] \<Rightarrow> None
      | c # r \<Rightarrow>
          if cls_match Bullet c \<and> list_all (cls_match AnyChar) (dropWhile (cls_match Space) r)
          then Some (dropWhile (cls_match Space) r)
          else None)"

definition item_line :: "js_string \<Rightarrow> js_string option" where
  "item_line l =
     (case l of
        [] \<Rightarrow> None
      | w # r \<Rightarrow> if cls_match Space w then list_line (dropWhile (cls_match Space) r) else None)"

text \<open>
  \<open>mid t\<close> is the shortest prefix of \<open>t\<close> that leaves only markers, \<open>trail t\<close> what it
  leaves.
\<close>

fun mid :: "js_string \<Rightarrow> js_string" where
  "mid [] = []"
| "mid (c # s) = (if list_all (cls_match Marker) (c # s) then [] else c # mid s)"

definition trail :: "js_string \<Rightarrow> js_string" where
  "trail s = drop (length (mid s)) s"

definition parse_text :: "js_string \<Rightarrow> KanbanModelItem" where
  "parse_text t =
     \<lparr>item_name = mid (dropWhile (cls_match Marker) t),
      importance = min 3 (min (length (takeWhile (cls_match Marker) t))
                              (length (trail (dropWhile (cls_match Marker) t))))\<rparr>"

text \<open>
  What one line does to the Board built so far: a list line appends an empty List, an item
  line appends an Item to the last List if there is one, any other line does nothing.
\<close>

definition step :: "js_string \<Rightarrow> KanbanModel \<Rightarrow> KanbanModel" where
  "step l m =
     (case list_line l of
        Some n \<Rightarrow> m\<lparr>lists := lists m @ [\<lparr>list_name = n, items = []\<rparr>]\<rparr>
      | None \<Rightarrow>
          (case item_line l of
             None \<Rightarrow> m
           | Some t \<Rightarrow>
               if lists m = [] then m
               else m\<lparr>lists := butlast (lists m) @
                      [last (lists m)\<lparr>items := items (last (lists m)) @ [parse_text t]\<rparr>]\<rparr>))"

text \<open>The lines of a List's block, and all Items of a Board.\<close>

definition item_md_line :: "KanbanModelItem \<Rightarrow> js_string" where
  "item_md_line i =
     js ''  * '' @ replicate (importance i) star @ item_name i @ replicate (importance i) star"

definition list_lines :: "KanbanModelList \<Rightarrow> js_string list" where
  "list_lines l = (js ''* '' @ list_name l) # map item_md_line (items l)"

definition all_items :: "KanbanModel \<Rightarrow> KanbanModelItem list" where
  "all_items m = concat (map items (lists m))"

text \<open>Removal and insertion at a position, by recursion on the position.\<close>

fun remove_at :: "nat \<Rightarrow> 'a list \<Rightarrow> 'a list" where
  "remove_at n [] = []"
| "remove_at 0 (x # xs) = xs"
| "remove_at (Suc n) (x # xs) = x # remove_at n xs"

fun insert_at :: "nat \<Rightarrow> 'a \<Rightarrow> 'a list \<Rightarrow> 'a list" where
  "insert_at 0 y xs = y # xs"
| "insert_at (Suc n) y [] = [y]"
| "insert_at (Suc n) y (x # xs) = x # insert_at n y xs"

text \<open>
  The Boards that \<open>deserialize\<close> builds: no name holds a line terminator, a List's name
  does not begin with white space, an Item's name neither begins nor ends with a marker,
  and only a non-empty name carries emphasis.
\<close>

definition starts_with_space :: "js_string \<Rightarrow> bool" where
  "starts_with_space n = (case n of [] \<Rightarrow> False | c # r \<Rightarrow> cls_match Space c)"

definition parsed_item :: "KanbanModelItem \<Rightarrow> bool" where
  "parsed_item i \<longleftrightarrow>
     list_all (cls_match AnyChar) (item_name i) \<and>
     takeWhile (cls_match Marker) (item_name i) = [] \<and>
     mid (item_name i) = item_name i \<and>
     importance i \<le> 3 \<and>
     (item_name i = [] \<longrightarrow> importance i = 0)"

definition parsed_list :: "KanbanModelList \<Rightarrow> bool" where
  "parsed_list l \<longleftrightarrow>
     list_all (cls_match AnyChar) (list_name l) \<and>
     \<not> starts_with_space (list_name l) \<and>
     list_all parsed_item (items l)"

definition parsed_board :: "KanbanModel \<Rightarrow> bool" where
  "parsed_board m \<longleftrightarrow> list_all parsed_list (lists m)"

text \<open>The indices that \<open>moveItem\<close> is meant for.\<close>

definition in_range :: "KanbanModel \<Rightarrow> int \<Rightarrow> int \<Rightarrow> int \<Rightarrow> int \<Rightarrow> bool" where
  "in_range m fromListIndex fromItemIndex toListIndex toItemIndex \<longleftrightarrow>
     0 \<le> fromListIndex \<and> fromListIndex < int (length (lists m)) \<and>
     0 \<le> toListIndex \<and> toListIndex < int (length (lists m)) \<and>
     0 \<le> fromItemIndex \<and>
     fromItemIndex < int (length (items (lists m ! nat fromListIndex))) \<and>
     0 \<le> toItemIndex \<and>
     toItemIndex \<le> (if toListIndex = fromListIndex
                     then int (length (items (lists m ! nat fromListIndex))) - 1
                     else int (length (items (lists m ! nat toListIndex))))"

text \<open>
  The Board after a move, in the words of the specification: the Item is removed from its
  List, and then inserted into the destination List as that List is after the removal.
\<close>

definition moved :: "KanbanModel \<Rightarrow> nat \<Rightarrow> nat \<Rightarrow> nat \<Rightarrow> nat \<Rightarrow> KanbanModel" where
  "moved m fl fi dl di =
     (let src = lists m ! fl;
          x = items src ! fi;
          m1 = m\<lparr>lists := (lists m)[fl := src\<lparr>items := remove_at fi (items src)\<rparr>]\<rparr>;
          dst = lists m1 ! dl
      in m1\<lparr>lists := (lists m1)[dl := dst\<lparr>items := insert_at di x (items dst)\<rparr>]\<rparr>)"

text \<open>
  The text that \<open>serialize\<close> writes for an Item, and the Item and the List that
  \<open>deserialize\<close> reads back from what \<open>serialize\<close> wrote.
\<close>

definition item_text :: "KanbanModelItem \<Rightarrow> js_string" where
  "item_text i = replicate (importance i) star @ item_name i @ replicate (importance i) star"

definition reread :: "KanbanModelItem \<Rightarrow> KanbanModelItem" where
  "reread i = parse_text (dropWhile (cls_match Space) (item_text i))"

definition reread_list :: "KanbanModelList \<Rightarrow> KanbanModelList" where
  "reread_list l = l\<lparr>items := map reread (items l)\<rparr>"

section \<open>Properties\<close>

subsection \<open>What the three patterns match\<close>

lemma bullet_not_space: "cls_match Bullet c \<Longrightarrow> \<not> cls_match Space c"
  by (auto simp: is_white_space_def is_line_terminator_def)

declare cls_match.simps [simp del]

lemma run_star_tail:
  "run [Star k, Close i, Eol, Close j] b s (g1 # g0 # os) cs =
     (if list_all (cls_match k) s then Some (cs[i := Some g1, j := Some g0]) else None)"
  by (induction s arbitrary: b) auto

lemma list_all_dropWhile: "list_all P s \<Longrightarrow> list_all P (dropWhile Q s)"
  by (induction s) auto

lemma run_star_space_open:
  "run (Star Space # Open i # [Star k, Close i, Eol, Close j]) b s (g0 # os) cs =
     (if list_all (cls_match k) (dropWhile (cls_match Space) s)
      then Some (cs[i := Some (dropWhile (cls_match Space) s), j := Some g0]) else None)"
proof (induction s arbitrary: b)
  case Nil
  show ?case by (simp add: run_star_tail)
next
  case (Cons c s)
  show ?case
  proof (cases "cls_match Space c")
    case True
    then show ?thesis using Cons [of False] list_all_dropWhile [of "cls_match k" s "cls_match Space"]
      by (auto simp add: run_star_tail)
  next
    case False
    then show ?thesis by (simp add: run_star_tail)
  qed
qed

lemma run_star_space_bullet:
  "run (Star Space # One Bullet # R) b s os cs =
     (case dropWhile (cls_match Space) s of
        [] \<Rightarrow> None
      | c # r \<Rightarrow> if cls_match Bullet c then run R False r os cs else None)"
proof (induction s arbitrary: b)
  case Nil
  show ?case by simp
next
  case (Cons c s)
  show ?case
  proof (cases "cls_match Space c")
    case True
    then have "\<not> cls_match Bullet c" using bullet_not_space by blast
    then show ?thesis using True Cons [of False]
      by (simp split: option.splits)
  next
    case False
    then show ?thesis by (simp)
  qed
qed

lemma exec_from_Bol_False: "exec_from (Bol # r) False s = None"
  by (induction s) auto

lemma js_match_Bol:
  "js_match s (Bol # r) = run (Bol # r @ [Close 0]) True s [s] (replicate (Suc (ngroups r)) None)"
  by (cases s) (auto simp: js_match_def exec_from_Bol_False split: option.splits)

lemma js_match_reList:
  "js_match l reList =
     (case l of
        [] \<Rightarrow> None
      | c # r \<Rightarrow>
          if cls_match Bullet c \<and> list_all (cls_match AnyChar) (dropWhile (cls_match Space) r)
          then Some [Some l, Some (dropWhile (cls_match Space) r)]
          else None)"
  by (simp add: reList_def js_match_Bol run_star_space_open numeral_2_eq_2
        split: list.splits)

lemma js_match_reItem_line:
  "js_match l reItem = map_option (\<lambda>t. [Some l, Some t]) (item_line l)"
proof (cases l)
  case Nil
  then show ?thesis by (simp add: reItem_def js_match_Bol item_line_def)
next
  case (Cons w r)
  show ?thesis
  proof (cases "dropWhile (cls_match Space) r")
    case Nil
    then show ?thesis using Cons
      by (simp add: reItem_def js_match_Bol run_star_space_bullet item_line_def list_line_def
            del: dropWhile_eq_Nil_conv)
  next
    case (Cons c r')
    then show ?thesis using \<open>l = w # r\<close>
      by (simp add: reItem_def js_match_Bol run_star_space_bullet run_star_space_open
            numeral_2_eq_2 item_line_def list_line_def)
  qed
qed

lemma run_lazy_text:
  "list_all (cls_match AnyChar) s \<Longrightarrow>
   run (LazyStar AnyChar # Close i2 # Open i3 # [Star Marker, Close i3, Eol, Close j]) b s
       ((pre @ s) # g0 # os) cs =
     Some (cs[i2 := Some (pre @ mid s), i3 := Some (trail s), j := Some g0])"
proof (induction s arbitrary: b pre)
  case Nil
  show ?case by (simp add: run_star_tail trail_def)
next
  case (Cons c s)
  have dot: "cls_match AnyChar c" and rest: "list_all (cls_match AnyChar) s"
    using Cons.prems by simp_all
  show ?case
  proof (cases "list_all (cls_match Marker) (c # s)")
    case True
    then show ?thesis by (simp add: run_star_tail trail_def)
  next
    case False
    have "run (LazyStar AnyChar # Close i2 # Open i3 # [Star Marker, Close i3, Eol, Close j])
            False s (((pre @ [c]) @ s) # g0 # os) cs =
          Some (cs[i2 := Some ((pre @ [c]) @ mid s), i3 := Some (trail s), j := Some g0])"
      by (rule Cons.IH [OF rest])
    then show ?thesis using False dot
      by (simp add: run_star_tail trail_def)
  qed
qed

lemma run_greedy_text:
  "list_all (cls_match AnyChar) s \<Longrightarrow>
   run (Star Marker # Close i1 # Open i2 # LazyStar AnyChar # Close i2 # Open i3 #
          [Star Marker, Close i3, Eol, Close j]) b s ((pre @ s) # g0 # os) cs =
     Some (cs[i1 := Some (pre @ takeWhile (cls_match Marker) s),
              i2 := Some (mid (dropWhile (cls_match Marker) s)),
              i3 := Some (trail (dropWhile (cls_match Marker) s)), j := Some g0])"
proof (induction s arbitrary: b pre)
  case Nil
  show ?case using run_lazy_text [of "[]" i2 i3 j b "[]"] by (simp)
next
  case (Cons c s)
  have rest: "list_all (cls_match AnyChar) s"
    using Cons.prems by simp
  show ?case
  proof (cases "cls_match Marker c")
    case True
    have "run (Star Marker # Close i1 # Open i2 # LazyStar AnyChar # Close i2 # Open i3 #
          [Star Marker, Close i3, Eol, Close j]) False s (((pre @ [c]) @ s) # g0 # os) cs =
     Some (cs[i1 := Some ((pre @ [c]) @ takeWhile (cls_match Marker) s),
              i2 := Some (mid (dropWhile (cls_match Marker) s)),
              i3 := Some (trail (dropWhile (cls_match Marker) s)), j := Some g0])"
      by (rule Cons.IH [OF rest])
    then show ?thesis using True by (simp)
  next
    case False
    then show ?thesis using run_lazy_text [OF Cons.prems, of i2 i3 j b "[]"]
      by (simp)
  qed
qed

lemma js_match_reText:
  "list_all (cls_match AnyChar) t \<Longrightarrow>
   js_match t reText =
     Some [Some t, Some (takeWhile (cls_match Marker) t),
           Some (mid (dropWhile (cls_match Marker) t)),
           Some (trail (dropWhile (cls_match Marker) t))]"
  using run_greedy_text [of t 1 2 3 0 True "[]" t "[]" "[None, None, None, None]"]
  by (simp add: reText_def js_match_Bol numeral_2_eq_2 numeral_3_eq_3)


lemma js_match_reList_line:
  "js_match l reList = map_option (\<lambda>n. [Some l, Some n]) (list_line l)"
  by (simp add: js_match_reList list_line_def split: list.splits)

lemma dropWhile_not_starts: "\<not> starts_with_space (dropWhile (cls_match Space) r)"
  by (induction r) (simp_all add: starts_with_space_def)

lemma list_line_Some:
  "list_line l = Some n \<Longrightarrow> list_all (cls_match AnyChar) n \<and> \<not> starts_with_space n"
  by (auto simp: list_line_def dropWhile_not_starts split: list.splits if_splits)

lemma item_line_Some:
  "item_line l = Some t \<Longrightarrow> list_all (cls_match AnyChar) t \<and> \<not> starts_with_space t"
  by (auto simp: item_line_def dest: list_line_Some split: list.splits if_splits)

lemma item_line_not_list_line: "item_line l = Some t \<Longrightarrow> list_line l = None"
  by (auto simp: item_line_def list_line_def bullet_not_space split: list.splits if_splits)

lemma item_of_text_parse:
  "list_all (cls_match AnyChar) t \<Longrightarrow> item_of_text t = Inr (parse_text t)"
  by (simp add: item_of_text_def js_match_reText grp_def emp_def parse_text_def
        new_KanbanModelItem_def numeral_2_eq_2 numeral_3_eq_3)

lemma update_last:
  "xs \<noteq> [] \<Longrightarrow> xs[length xs - Suc 0 := y] = butlast xs @ [y]"
  by (induction xs rule: rev_induct) simp_all

lemma deserialize_line_step: "deserialize_line l m = Inr (step l m)"
proof (cases "list_line l")
  case (Some n)
  then show ?thesis
    by (simp add: deserialize_line_def step_def js_match_reList_line grp_def addList_def
          new_KanbanModelList_def)
next
  case None
  note no_list = this
  show ?thesis
  proof (cases "item_line l")
    case None
    then show ?thesis using no_list
      by (simp add: deserialize_line_def step_def js_match_reList_line js_match_reItem_line)
  next
    case (Some t)
    have dot: "list_all (cls_match AnyChar) t" using item_line_Some [OF Some] by simp
    show ?thesis
    proof (cases "lists m = []")
      case True
      then show ?thesis using no_list Some
        by (simp add: deserialize_line_def step_def js_match_reList_line js_match_reItem_line
              getLength_def)
    next
      case False
      then have "lists m ! (length (lists m) - Suc 0) = last (lists m)"
        by (simp add: last_conv_nth)
      then show ?thesis using no_list Some False
        by (simp add: deserialize_line_def step_def js_match_reList_line js_match_reItem_line
              getLength_def grp_def item_of_text_parse [OF dot] getListAt_def at_index_def
              addItem_def new_KanbanModelItem_def parse_text_def update_last nat_diff_distrib')
    qed
  qed
qed

lemma forEach_line_fold: "forEach_line ls m = Inr (fold step ls m)"
  by (induction ls arbitrary: m) (simp_all add: deserialize_line_step)

lemma deserialize_fold: "deserialize s = fold step (split_nl s) new_KanbanModel"
  by (simp add: deserialize_def deserialize_try_def forEach_line_fold catch_all_def)

subsection \<open>The split of a marked text\<close>

lemma mid_append_trail: "mid s @ trail s = s"
  unfolding trail_def by (induction s) simp_all

lemma trail_markers: "list_all (cls_match Marker) (trail s)"
  unfolding trail_def by (induction s) simp_all

lemma mid_Nil_iff: "mid s = [] \<longleftrightarrow> list_all (cls_match Marker) s"
  by (cases s) simp_all

lemma mid_not_all_markers:
  "\<not> list_all (cls_match Marker) s \<Longrightarrow> \<not> list_all (cls_match Marker) (mid s)"
  by (induction s) auto

lemma mid_idem: "mid (mid s) = mid s"
proof (induction s)
  case Nil
  show ?case by simp
next
  case (Cons c s)
  show ?case
  proof (cases "list_all (cls_match Marker) (c # s)")
    case True
    then show ?thesis by simp
  next
    case False
    then have unfold: "mid (c # s) = c # mid s" by simp
    have "\<not> list_all (cls_match Marker) (mid (c # s))"
      using False by (rule mid_not_all_markers)
    then have "\<not> list_all (cls_match Marker) (c # mid s)"
      unfolding unfold .
    then have "mid (c # mid s) = c # mid (mid s)" by simp
    then show ?thesis using unfold Cons by simp
  qed
qed

lemma mid_last: "mid s = [] \<or> \<not> cls_match Marker (last (mid s))"
proof (induction s)
  case Nil
  show ?case by simp
next
  case (Cons c s)
  show ?case
  proof (cases "list_all (cls_match Marker) (c # s)")
    case True
    then show ?thesis by simp
  next
    case False
    then show ?thesis using Cons by (auto simp: mid_Nil_iff)
  qed
qed

lemma list_all_mid: "list_all P s \<Longrightarrow> list_all P (mid s)"
  by (induction s) simp_all

lemma takeWhile_mid:
  "takeWhile (cls_match Marker) s = [] \<Longrightarrow> takeWhile (cls_match Marker) (mid s) = []"
  by (cases s) (auto split: if_splits)

lemma takeWhile_dropWhile_Nil: "takeWhile P (dropWhile P s) = []"
  by (induction s) simp_all

lemma all_markers_dropWhile:
  "list_all (cls_match Marker) (dropWhile (cls_match Marker) t) \<Longrightarrow>
   dropWhile (cls_match Marker) t = []"
  by (induction t) (auto split: if_splits)

lemma parse_text_parsed:
  assumes "list_all (cls_match AnyChar) t"
  shows "parsed_item (parse_text t)"
proof -
  let ?x = "dropWhile (cls_match Marker) t"
  have dot: "list_all (cls_match AnyChar) (mid ?x)"
    using assms by (simp add: list_all_mid list_all_dropWhile)
  have left: "takeWhile (cls_match Marker) (mid ?x) = []"
    by (simp add: takeWhile_mid takeWhile_dropWhile_Nil)
  have empty: "trail ?x = []" if "mid ?x = []"
  proof -
    have "list_all (cls_match Marker) ?x" using that by (simp only: mid_Nil_iff)
    then have "?x = []" by (rule all_markers_dropWhile)
    then show ?thesis by (simp add: trail_def del: dropWhile_eq_Nil_conv)
  qed
  show ?thesis
    unfolding parsed_item_def parse_text_def using dot left empty
    by (simp add: mid_idem)
qed

lemma step_parsed: "parsed_board m \<Longrightarrow> parsed_board (step l m)"
proof (cases "list_line l")
  case (Some n)
  assume "parsed_board m"
  then show ?thesis using Some list_line_Some [OF Some]
    by (simp add: step_def parsed_board_def parsed_list_def)
next
  case None
  assume pb: "parsed_board m"
  show ?thesis
  proof (cases "item_line l")
    case None
    then show ?thesis using pb \<open>list_line l = None\<close> by (simp add: step_def)
  next
    case (Some t)
    have pi: "parsed_item (parse_text t)"
      using item_line_Some [OF Some] by (simp add: parse_text_parsed)
    show ?thesis
    proof (cases "lists m = []")
      case True
      then show ?thesis using pb Some \<open>list_line l = None\<close> by (simp add: step_def)
    next
      case False
      then have split: "lists m = butlast (lists m) @ [last (lists m)]" by simp
      have "list_all parsed_list (butlast (lists m) @ [last (lists m)])"
        using pb split unfolding parsed_board_def by simp
      then have "list_all parsed_list (butlast (lists m))" and "parsed_list (last (lists m))"
        by simp_all
      then show ?thesis using pi Some False \<open>list_line l = None\<close>
        by (simp add: step_def parsed_board_def parsed_list_def)
    qed
  qed
qed

lemma fold_step_parsed: "parsed_board m \<Longrightarrow> parsed_board (fold step ls m)"
  by (induction ls arbitrary: m) (simp_all add: step_parsed)

lemma deserialize_parsed: "parsed_board (deserialize s)"
proof -
  have "parsed_board new_KanbanModel"
    by (simp add: parsed_board_def new_KanbanModel_def)
  then show ?thesis unfolding deserialize_fold by (rule fold_step_parsed)
qed

lemma deserialize_try_Inr: "deserialize_try s = Inr (deserialize s)"
  by (simp add: deserialize_try_def forEach_line_fold deserialize_fold)

subsection \<open>Lines\<close>

lemma split_nl_not_Nil: "split_nl s \<noteq> []"
  by (induction s) (auto split: list.splits)

lemma split_nl_append: "split_nl (s1 @ nl # s2) = split_nl s1 @ split_nl s2"
proof (induction s1)
  case Nil
  show ?case by simp
next
  case (Cons c s1)
  obtain l ls where "split_nl s1 = l # ls"
    using split_nl_not_Nil [of s1] by (cases "split_nl s1") auto
  then show ?case using Cons by simp
qed

lemma fold_step_inert:
  "\<forall>l \<in> set ls. list_line l = None \<and> (item_line l = None \<or> lists m = []) \<Longrightarrow>
   fold step ls m = m"
  by (induction ls) (auto simp: step_def split: option.splits)

subsection \<open>Joining lines\<close>

lemma join_nl_Cons: "ls \<noteq> [] \<Longrightarrow> join_nl (l # ls) = l @ nl # join_nl ls"
  by (cases ls) simp_all

lemma join_nl_append:
  "xs \<noteq> [] \<Longrightarrow> ys \<noteq> [] \<Longrightarrow> join_nl (xs @ ys) = join_nl xs @ nl # join_nl ys"
proof (induction xs)
  case Nil
  then show ?case by simp
next
  case (Cons x xs)
  show ?case
  proof (cases "xs = []")
    case True
    then show ?thesis using Cons.prems by (simp add: join_nl_Cons)
  next
    case False
    then show ?thesis using Cons by (simp add: join_nl_Cons)
  qed
qed

lemma join_nl_concat:
  "\<forall>b \<in> set bs. b \<noteq> [] \<Longrightarrow> join_nl (map join_nl bs) = join_nl (concat bs)"
proof (induction bs)
  case Nil
  show ?case by simp
next
  case (Cons b bs)
  show ?case
  proof (cases "bs = []")
    case True
    then show ?thesis by simp
  next
    case False
    then have "concat bs \<noteq> []" using Cons.prems by (cases bs) auto
    moreover have "b \<noteq> []" using Cons.prems by simp
    ultimately have "join_nl (b @ concat bs) = join_nl b @ nl # join_nl (concat bs)"
      by (simp add: join_nl_append)
    then show ?thesis using False Cons by (simp add: join_nl_Cons)
  qed
qed

lemma js_bullet: "js ''* '' = [star, space]"
  by (simp add: js_def star_def space_def)

lemma js_item_bullet: "js ''  * '' = [space, space, star, space]"
  by (simp add: js_def star_def space_def)

lemma repeat_star: "repeat [star] k = replicate k star"
  by (induction k) (simp_all add: repeat_def)

lemma item_toMarkdown_eq:
  "item_toMarkdown i = replicate (importance i) star @ item_name i @ replicate (importance i) star"
  by (simp add: item_toMarkdown_def repeat_star Let_def)

lemma list_toMarkdown_lines: "list_toMarkdown l = join_nl (list_lines l)"
  by (simp add: list_toMarkdown_def list_lines_def item_md_line_def [abs_def] js_bullet
        js_item_bullet item_toMarkdown_eq)

lemma list_lines_not_Nil: "list_lines l \<noteq> []"
  by (simp add: list_lines_def)

lemma serialize_lines: "serialize m = join_nl (concat (map list_lines (lists m)))"
proof -
  have "map list_toMarkdown (lists m) = map join_nl (map list_lines (lists m))"
    by (simp add: list_toMarkdown_lines)
  moreover have "\<forall>b \<in> set (map list_lines (lists m)). b \<noteq> []"
    by (simp add: list_lines_not_Nil)
  ultimately show ?thesis
    by (simp only: serialize_def join_nl_concat)
qed

subsection \<open>Equality\<close>

lemma equalArrays_list_all2: "equalArrays eq xs ys \<longleftrightarrow> list_all2 eq xs ys"
  by (induction eq xs ys rule: equalArrays.induct) simp_all

lemma item_isEqual_eq: "item_isEqual a b \<longleftrightarrow> a = b"
  by (auto simp: item_isEqual_def)

lemma list_isEqual_eq: "list_isEqual a b \<longleftrightarrow> a = b"
proof -
  have "item_isEqual = (=)" by (intro ext) (simp add: item_isEqual_eq)
  then show ?thesis
    by (auto simp: list_isEqual_def equalArrays_list_all2 list.rel_eq)
qed

lemma equals_eq: "equals a b \<longleftrightarrow> a = b"
proof -
  have "list_isEqual = (=)" by (intro ext) (simp add: list_isEqual_eq)
  then show ?thesis
    by (auto simp: equals_def equalArrays_list_all2 list.rel_eq)
qed

lemma item_eq_fields: "a = b \<longleftrightarrow> item_name a = item_name b \<and> importance a = importance b"
  for a b :: KanbanModelItem
  by auto

lemma list_eq_fields:
  "a = b \<longleftrightarrow>
     list_name a = list_name b \<and> length (items a) = length (items b) \<and>
     (\<forall>j < length (items a).
        item_name (items a ! j) = item_name (items b ! j) \<and>
        importance (items a ! j) = importance (items b ! j))"
  for a b :: KanbanModelList
proof -
  have "items a = items b \<longleftrightarrow>
     length (items a) = length (items b) \<and>
     (\<forall>j < length (items a).
        item_name (items a ! j) = item_name (items b ! j) \<and>
        importance (items a ! j) = importance (items b ! j))"
    by (simp add: list_eq_iff_nth_eq item_eq_fields)
  then show ?thesis by auto
qed

subsection \<open>Moving an Item\<close>

lemma remove_at_take_drop: "remove_at k xs = take k xs @ drop (Suc k) xs"
  by (induction k xs rule: remove_at.induct) simp_all

lemma insert_at_take_drop: "insert_at k y xs = take k xs @ y # drop k xs"
  by (induction k y xs rule: insert_at.induct) simp_all

lemma splice_remove: "k < length xs \<Longrightarrow> splice (int k) 1 [] xs = remove_at k xs"
  by (simp add: splice_def splice_start_def remove_at_take_drop Let_def)

lemma splice_insert: "k \<le> length xs \<Longrightarrow> splice (int k) 0 [y] xs = insert_at k y xs"
  by (simp add: splice_def splice_start_def insert_at_take_drop Let_def)

lemma length_remove_at: "k < length xs \<Longrightarrow> length (remove_at k xs) = length xs - 1"
  by (simp add: remove_at_take_drop)

lemma insert_at_nth: "k \<le> length xs \<Longrightarrow> insert_at k y xs ! k = y"
  by (simp add: insert_at_take_drop nth_append)

lemma moveItem_in_range:
  assumes "in_range m fl fi dl di"
  shows "moveItem fl fi dl di m = Inr (moved m (nat fl) (nat fi) (nat dl) (nat di))"
proof -
  let ?src = "lists m ! nat fl"
  let ?L1 = "(lists m)[nat fl := ?src\<lparr>items := remove_at (nat fi) (items ?src)\<rparr>]"
  have fl: "0 \<le> fl" "nat fl < length (lists m)" and dl: "0 \<le> dl" "nat dl < length (lists m)"
    and fi: "0 \<le> fi" "nat fi < length (items ?src)" and di0: "0 \<le> di"
    using assms by (auto simp: in_range_def)
  have di: "nat di \<le> length (items (?L1 ! nat dl))"
  proof (cases "dl = fl")
    case True
    then have "di \<le> int (length (items ?src)) - 1"
      using assms by (simp add: in_range_def)
    then show ?thesis using True fl fi di0 by (simp add: length_remove_at)
  next
    case False
    then have "nat dl \<noteq> nat fl" using fl dl by simp
    moreover have "di \<le> int (length (items (lists m ! nat dl)))"
      using assms False by (simp add: in_range_def)
    ultimately show ?thesis using di0 by simp
  qed
  have get_from: "getListAt m fl = Some ?src"
    using fl by (simp add: getListAt_def at_index_def)
  have item: "getItemAt ?src fi = Some (items ?src ! nat fi)"
    using fi by (simp add: getItemAt_def at_index_def)
  have removed: "removeItemAt fi ?src = ?src\<lparr>items := remove_at (nat fi) (items ?src)\<rparr>"
    using fi splice_remove [of "nat fi" "items ?src"] by (simp add: removeItemAt_def)
  have get_to: "getListAt (m\<lparr>lists := ?L1\<rparr>) dl = Some (?L1 ! nat dl)"
    using dl by (simp add: getListAt_def at_index_def)
  have inserted: "insertItem di y (?L1 ! nat dl) =
      (?L1 ! nat dl)\<lparr>items := insert_at (nat di) y (items (?L1 ! nat dl))\<rparr>" for y
    using di di0 splice_insert [of "nat di" "items (?L1 ! nat dl)" y]
    by (simp add: insertItem_def)
  show ?thesis
    unfolding moveItem_def moved_def
    by (simp add: get_from item removed get_to inserted Let_def)
qed

subsection \<open>The Items of a Board as a multiset\<close>

lemma mset_remove_at: "k < length xs \<Longrightarrow> add_mset (xs ! k) (mset (remove_at k xs)) = mset xs"
  by (induction k xs rule: remove_at.induct) simp_all

lemma mset_insert_at: "mset (insert_at k y xs) = add_mset y (mset xs)"
  by (induction k y xs rule: insert_at.induct) simp_all

lemma mset_concat_update:
  "k < length xss \<Longrightarrow>
   mset (concat (xss[k := ys])) + mset (xss ! k) = mset (concat xss) + mset ys"
proof (induction xss arbitrary: k)
  case Nil
  then show ?case by simp
next
  case (Cons xs xss)
  show ?case
  proof (cases k)
    case 0
    then show ?thesis by simp
  next
    case (Suc n)
    then have "n < length xss" using Cons.prems by simp
    then have "mset (concat (xss[n := ys])) + mset (xss ! n) = mset (concat xss) + mset ys"
      by (rule Cons.IH)
    then show ?thesis using Suc by (simp add: add.assoc)
  qed
qed

lemma all_items_update:
  "k < length (lists m) \<Longrightarrow>
   mset (all_items (m\<lparr>lists := (lists m)[k := l]\<rparr>)) + mset (items (lists m ! k)) =
   mset (all_items m) + mset (items l)"
  using mset_concat_update [of k "map items (lists m)" "items l"]
  by (simp add: all_items_def map_update)

lemma moved_items:
  assumes "fl < length (lists m)" and "dl < length (lists m)"
    and "fi < length (items (lists m ! fl))"
  shows "mset (all_items (moved m fl fi dl di)) = mset (all_items m)"
proof -
  let ?src = "lists m ! fl"
  let ?x = "items ?src ! fi"
  let ?m1 = "m\<lparr>lists := (lists m)[fl := ?src\<lparr>items := remove_at fi (items ?src)\<rparr>]\<rparr>"
  let ?dst = "lists ?m1 ! dl"
  let ?m2 = "?m1\<lparr>lists := (lists ?m1)[dl := ?dst\<lparr>items := insert_at di ?x (items ?dst)\<rparr>]\<rparr>"
  have 1: "mset (all_items ?m1) + mset (items ?src) =
      mset (all_items m) + mset (remove_at fi (items ?src))"
    using all_items_update [OF assms(1)] by simp
  have "dl < length (lists ?m1)" using assms(2) by simp
  then have "mset (all_items ?m2) + mset (items ?dst) =
      mset (all_items ?m1) + mset (insert_at di ?x (items ?dst))"
    using all_items_update [of dl ?m1] by simp
  then have 2: "mset (all_items ?m2) = add_mset ?x (mset (all_items ?m1))"
    by (simp add: mset_insert_at)
  have "add_mset ?x (mset (all_items ?m1)) + mset (remove_at fi (items ?src)) =
      mset (all_items ?m1) + mset (items ?src)"
    using mset_remove_at [OF assms(3)] by (metis union_mset_add_mset_left union_mset_add_mset_right)
  then have "add_mset ?x (mset (all_items ?m1)) + mset (remove_at fi (items ?src)) =
      mset (all_items m) + mset (remove_at fi (items ?src))"
    using 1 by simp
  then have "add_mset ?x (mset (all_items ?m1)) = mset (all_items m)"
    by simp
  then show ?thesis using 2 by (simp add: moved_def Let_def)
qed

subsection \<open>One line of the input\<close>

lemma parsed_importance:
  "parsed_board m \<Longrightarrow> l \<in> set (lists m) \<Longrightarrow> i \<in> set (items l) \<Longrightarrow> importance i \<le> 3"
  by (auto simp: parsed_board_def parsed_list_def parsed_item_def list_all_iff)

lemma js_match_reList_None: "js_match l reList = None \<longleftrightarrow> list_line l = None"
  by (simp add: js_match_reList_line)

lemma js_match_reItem_None: "js_match l reItem = None \<longleftrightarrow> item_line l = None"
  by (simp add: js_match_reItem_line)

lemma step_item_line:
  "item_line l = Some t \<Longrightarrow>
   step l m =
     (if lists m = [] then m
      else m\<lparr>lists := butlast (lists m) @
             [last (lists m)\<lparr>items := items (last (lists m)) @ [parse_text t]\<rparr>]\<rparr>)"
  using item_line_not_list_line [of l t] by (simp add: step_def)

lemma moved_same_list:
  "fl < length (lists m) \<Longrightarrow>
   items (lists (moved m fl fi fl di) ! fl) =
     insert_at di (items (lists m ! fl) ! fi) (remove_at fi (items (lists m ! fl)))"
  by (simp add: moved_def Let_def)

lemma moved_other_list:
  "fl < length (lists m) \<Longrightarrow> dl < length (lists m) \<Longrightarrow> dl \<noteq> fl \<Longrightarrow>
   items (lists (moved m fl fi dl di) ! fl) = remove_at fi (items (lists m ! fl)) \<and>
   items (lists (moved m fl fi dl di) ! dl) =
     insert_at di (items (lists m ! fl) ! fi) (items (lists m ! dl))"
  by (simp add: moved_def Let_def)

lemma moved_length: "length (lists (moved m fl fi dl di)) = length (lists m)"
  by (simp add: moved_def Let_def)

subsection \<open>Reading back what serialize writes\<close>

lemma cls_star [simp]:
  "cls_match Bullet star" "cls_match Marker star" "cls_match AnyChar star"
  "\<not> cls_match Space star"
  by (simp_all add: cls_match.simps star_def is_line_terminator_def is_white_space_def)

lemma cls_space [simp]:
  "cls_match Space space" "cls_match AnyChar space"
  by (simp_all add: cls_match.simps space_def is_line_terminator_def is_white_space_def)

lemma cls_nl [simp]: "\<not> cls_match AnyChar nl"
  by (simp add: cls_match.simps nl_def is_line_terminator_def)

lemma star_space_not_nl [simp]:
  "star \<noteq> nl" "space \<noteq> nl" "nl \<noteq> star" "nl \<noteq> space"
  by (simp_all add: star_def space_def nl_def)

lemma dropWhile_trimmed:
  "\<not> starts_with_space n \<Longrightarrow> dropWhile (cls_match Space) n = n"
  by (cases n) (simp_all add: starts_with_space_def)

lemma list_line_header:
  assumes "list_all (cls_match AnyChar) n" and "\<not> starts_with_space n"
  shows "list_line (js ''* '' @ n) = Some n"
  using assms by (simp add: list_line_def js_bullet dropWhile_trimmed)

lemma item_text_trimmed:
  assumes "importance i = 0 \<longrightarrow> \<not> starts_with_space (item_name i)"
  shows "\<not> starts_with_space (item_text i)"
proof (cases "importance i")
  case 0
  then show ?thesis using assms by (simp add: item_text_def)
next
  case (Suc k)
  then show ?thesis by (simp add: item_text_def starts_with_space_def)
qed

lemma item_text_dots:
  "list_all (cls_match AnyChar) (item_name i) \<Longrightarrow> list_all (cls_match AnyChar) (item_text i)"
  by (auto simp: item_text_def list_all_iff)

lemma mid_append_markers:
  "mid n = n \<Longrightarrow> n \<noteq> [] \<Longrightarrow> list_all (cls_match Marker) r \<Longrightarrow> mid (n @ r) = n"
proof (induction n)
  case Nil
  then show ?case by simp
next
  case (Cons c n)
  have not_all: "\<not> list_all (cls_match Marker) (c # n)"
    using Cons.prems(1) by (auto split: if_splits)
  then have tail: "mid n = n" using Cons.prems(1) by (simp split: if_splits)
  show ?case
  proof (cases "n = []")
    case True
    then have "\<not> cls_match Marker c" using not_all by simp
    moreover have "mid r = []" using Cons.prems(3) by (simp add: mid_Nil_iff)
    ultimately show ?thesis using True by simp
  next
    case False
    have "mid (n @ r) = n" using tail False Cons.prems(3) by (rule Cons.IH)
    then show ?thesis using not_all by auto
  qed
qed

lemma takeWhile_stars:
  "\<not> cls_match Marker c \<Longrightarrow>
   takeWhile (cls_match Marker) (replicate k star @ c # r) = replicate k star"
  by (induction k) simp_all

lemma dropWhile_stars:
  "\<not> cls_match Marker c \<Longrightarrow> dropWhile (cls_match Marker) (replicate k star @ c # r) = c # r"
  by (induction k) simp_all

lemma parse_text_item_text:
  assumes "parsed_item i"
  shows "parse_text (item_text i) = i"
proof (cases "item_name i = []")
  case True
  then have "importance i = 0" using assms by (simp add: parsed_item_def)
  then show ?thesis using True by (simp add: item_text_def parse_text_def trail_def)
next
  case False
  let ?n = "item_name i" and ?k = "importance i"
  have left: "takeWhile (cls_match Marker) ?n = []" and mid: "mid ?n = ?n" and k: "?k \<le> 3"
    using assms by (simp_all add: parsed_item_def)
  have hd: "\<not> cls_match Marker (hd ?n)"
    using left False by (cases ?n) (auto split: if_splits)
  have stars: "list_all (cls_match Marker) (replicate ?k star)"
    by (simp add: list_all_iff)
  have tw: "takeWhile (cls_match Marker) (item_text i) = replicate ?k star"
    using False hd unfolding item_text_def
    by (cases ?n) (simp_all add: takeWhile_stars)
  have dw: "dropWhile (cls_match Marker) (item_text i) = ?n @ replicate ?k star"
    using False hd unfolding item_text_def
    by (cases ?n) (simp_all add: dropWhile_stars)
  have m: "mid (?n @ replicate ?k star) = ?n"
    using mid False stars by (rule mid_append_markers)
  show ?thesis
    using k by (simp add: parse_text_def tw dw m trail_def)
qed


lemma item_line_md_line:
  assumes "list_all (cls_match AnyChar) (item_name i)"
  shows "item_line (item_md_line i) = Some (dropWhile (cls_match Space) (item_text i))"
proof -
  have "item_md_line i = space # space # star # space # item_text i"
    by (simp add: item_md_line_def item_text_def js_item_bullet)
  moreover have "list_all (cls_match AnyChar) (dropWhile (cls_match Space) (item_text i))"
    using item_text_dots [OF assms] by (rule list_all_dropWhile)
  ultimately show ?thesis
    by (simp add: item_line_def list_line_def)
qed

lemma step_item_md:
  assumes "parsed_item i" and "lists m \<noteq> []"
  shows "step (item_md_line i) m =
     m\<lparr>lists := butlast (lists m) @
           [last (lists m)\<lparr>items := items (last (lists m)) @ [reread i]\<rparr>]\<rparr>"
proof -
  have "item_line (item_md_line i) = Some (dropWhile (cls_match Space) (item_text i))"
    using assms(1) by (simp add: parsed_item_def item_line_md_line)
  then show ?thesis using assms(2) by (simp add: step_item_line reread_def)
qed

lemma fold_step_items:
  "list_all parsed_item its \<Longrightarrow> lists m \<noteq> [] \<Longrightarrow>
   fold step (map item_md_line its) m =
     m\<lparr>lists := butlast (lists m) @
           [last (lists m)\<lparr>items := items (last (lists m)) @ map reread its\<rparr>]\<rparr>"
proof (induction its arbitrary: m)
  case Nil
  then show ?case by simp
next
  case (Cons i its)
  let ?m1 = "m\<lparr>lists := butlast (lists m) @
                 [last (lists m)\<lparr>items := items (last (lists m)) @ [reread i]\<rparr>]\<rparr>"
  have "step (item_md_line i) m = ?m1"
    using Cons.prems by (simp add: step_item_md)
  moreover have "fold step (map item_md_line its) ?m1 =
      ?m1\<lparr>lists := butlast (lists ?m1) @
               [last (lists ?m1)\<lparr>items := items (last (lists ?m1)) @ map reread its\<rparr>]\<rparr>"
    using Cons.prems by (intro Cons.IH) simp_all
  ultimately show ?case by simp
qed

lemma fold_step_list_lines:
  assumes "parsed_list l"
  shows "fold step (list_lines l) m = m\<lparr>lists := lists m @ [reread_list l]\<rparr>"
proof -
  let ?m1 = "m\<lparr>lists := lists m @ [\<lparr>list_name = list_name l, items = []\<rparr>]\<rparr>"
  have "list_line (js ''* '' @ list_name l) = Some (list_name l)"
    using assms by (simp add: parsed_list_def list_line_header)
  then have "step (js ''* '' @ list_name l) m = ?m1"
    by (simp add: step_def)
  moreover have "fold step (map item_md_line (items l)) ?m1 =
      ?m1\<lparr>lists := butlast (lists ?m1) @
               [last (lists ?m1)\<lparr>items := items (last (lists ?m1)) @ map reread (items l)\<rparr>]\<rparr>"
    using assms by (intro fold_step_items) (simp_all add: parsed_list_def)
  ultimately show ?thesis by (simp add: list_lines_def reread_list_def)
qed

lemma fold_step_blocks:
  "list_all parsed_list ls \<Longrightarrow>
   fold step (concat (map list_lines ls)) m = m\<lparr>lists := lists m @ map reread_list ls\<rparr>"
proof (induction ls arbitrary: m)
  case Nil
  show ?case by simp
next
  case (Cons l ls)
  then show ?case by (simp add: fold_step_list_lines)
qed

lemma split_nl_line: "nl \<notin> set l \<Longrightarrow> split_nl l = [l]"
  by (induction l) auto

lemma split_join_nl:
  "ls \<noteq> [] \<Longrightarrow> \<forall>l \<in> set ls. nl \<notin> set l \<Longrightarrow> split_nl (join_nl ls) = ls"
proof (induction ls)
  case Nil
  then show ?case by simp
next
  case (Cons l ls)
  show ?case
  proof (cases "ls = []")
    case True
    then show ?thesis using Cons.prems by (simp add: split_nl_line)
  next
    case False
    then have "split_nl (join_nl ls) = ls" using Cons by simp
    then show ?thesis using False Cons.prems
      by (simp add: join_nl_Cons split_nl_append split_nl_line)
  qed
qed

lemma no_nl: "list_all (cls_match AnyChar) s \<Longrightarrow> nl \<notin> set s"
  by (auto simp: list_all_iff)

lemma list_lines_no_nl:
  assumes "parsed_list l" and "x \<in> set (list_lines l)"
  shows "nl \<notin> set x"
proof -
  have name: "nl \<notin> set (list_name l)"
    using assms(1) by (simp add: parsed_list_def no_nl)
  have item: "nl \<notin> set (item_name i)" if "i \<in> set (items l)" for i
    using assms(1) that by (simp add: parsed_list_def parsed_item_def list_all_iff no_nl)
  show ?thesis
    using assms(2) name item
    by (auto simp: list_lines_def item_md_line_def js_bullet js_item_bullet)
qed

lemma step_empty_line: "step [] m = m"
  by (simp add: step_def list_line_def item_line_def)

lemma deserialize_serialize:
  assumes "parsed_board b"
  shows "deserialize (serialize b) = b\<lparr>lists := map reread_list (lists b)\<rparr>"
proof (cases "lists b = []")
  case True
  then have "serialize b = []" by (simp add: serialize_def)
  then have "deserialize (serialize b) = new_KanbanModel"
    by (simp add: deserialize_fold step_empty_line)
  then show ?thesis using True by (simp add: new_KanbanModel_def)
next
  case False
  let ?ls = "concat (map list_lines (lists b))"
  have parsed: "list_all parsed_list (lists b)"
    using assms by (simp add: parsed_board_def)
  have "?ls \<noteq> []"
    using False by (cases "lists b") (simp_all add: list_lines_def)
  moreover have "\<forall>x \<in> set ?ls. nl \<notin> set x"
    using parsed list_lines_no_nl by (auto simp: list_all_iff)
  ultimately have "split_nl (serialize b) = ?ls"
    unfolding serialize_lines by (rule split_join_nl)
  then have "deserialize (serialize b) =
      new_KanbanModel\<lparr>lists := lists new_KanbanModel @ map reread_list (lists b)\<rparr>"
    using parsed by (simp add: deserialize_fold fold_step_blocks)
  then show ?thesis by (simp add: new_KanbanModel_def)
qed

lemma length_mid: "length (mid s) \<le> length s"
  by (induction s) simp_all

lemma reread_untrimmed:
  assumes "importance i = 0" and "starts_with_space (item_name i)"
  shows "length (item_name (reread i)) < length (item_name i)"
proof -
  obtain c r where n: "item_name i = c # r" and c: "cls_match Space c"
    using assms(2) by (cases "item_name i") (simp_all add: starts_with_space_def)
  let ?t = "dropWhile (cls_match Space) r"
  have "item_name (reread i) = mid (dropWhile (cls_match Marker) ?t)"
    using assms(1) n c by (simp add: reread_def item_text_def parse_text_def)
  moreover have "length (mid (dropWhile (cls_match Marker) ?t)) \<le> length r"
    using length_mid [of "dropWhile (cls_match Marker) ?t"]
      length_dropWhile_le [of "cls_match Marker" ?t] length_dropWhile_le [of "cls_match Space" r]
    by linarith
  ultimately show ?thesis using n by simp
qed

lemma reread_id_iff:
  assumes "parsed_item i"
  shows "reread i = i \<longleftrightarrow> (importance i = 0 \<longrightarrow> \<not> starts_with_space (item_name i))"
proof
  assume "reread i = i"
  then show "importance i = 0 \<longrightarrow> \<not> starts_with_space (item_name i)"
    using reread_untrimmed [of i] by auto
next
  assume "importance i = 0 \<longrightarrow> \<not> starts_with_space (item_name i)"
  then have "dropWhile (cls_match Space) (item_text i) = item_text i"
    by (simp add: item_text_trimmed dropWhile_trimmed)
  then show "reread i = i"
    using assms by (simp add: reread_def parse_text_item_text)
qed

lemma map_id_iff: "map f xs = xs \<longleftrightarrow> (\<forall>x \<in> set xs. f x = x)"
  by (induction xs) auto

lemma reread_list_id_iff: "reread_list l = l \<longleftrightarrow> (\<forall>i \<in> set (items l). reread i = i)"
proof -
  have "reread_list l = l \<longleftrightarrow> map reread (items l) = items l"
    unfolding reread_list_def by (cases l) auto
  then show ?thesis by (simp add: map_id_iff)
qed

lemma round_trip_iff:
  assumes "parsed_board b"
  shows "deserialize (serialize b) = b \<longleftrightarrow>
     (\<forall>l \<in> set (lists b). \<forall>i \<in> set (items l).
        importance i = 0 \<longrightarrow> \<not> starts_with_space (item_name i))"
proof -
  have "deserialize (serialize b) = b \<longleftrightarrow> map reread_list (lists b) = lists b"
    unfolding deserialize_serialize [OF assms] by (cases b) auto
  also have "\<dots> \<longleftrightarrow> (\<forall>l \<in> set (lists b). \<forall>i \<in> set (items l). reread i = i)"
    by (simp add: map_id_iff reread_list_id_iff)
  also have "\<dots> \<longleftrightarrow> (\<forall>l \<in> set (lists b). \<forall>i \<in> set (items l).
        importance i = 0 \<longrightarrow> \<not> starts_with_space (item_name i))"
    using assms reread_id_iff
    by (auto simp: parsed_board_def parsed_list_def list_all_iff)
  finally show ?thesis .
qed


subsection \<open>The text of a Board and the lines of an input\<close>










lemma deserialize_append_line:
  assumes "nl \<notin> set l"
  shows "deserialize (s @ nl # l) = step l (deserialize s)"
  using assms by (simp add: deserialize_fold split_nl_append split_nl_line)

lemma deserialize_continue:
  "deserialize (s @ nl # s') = catch_all (forEach_line (split_nl s') (deserialize s))"
  by (simp add: deserialize_fold split_nl_append forEach_line_fold catch_all_def)

lemma js_match_reItem_text:
  assumes "js_match l reItem = Some matchItem"
  shows "\<exists>t. item_line l = Some t \<and> grp matchItem 1 = Some t \<and> item_of_text t = Inr (parse_text t)"
proof -
  obtain t where t: "item_line l = Some t" and m: "matchItem = [Some l, Some t]"
    using assms by (auto simp: js_match_reItem_line)
  have "item_of_text t = Inr (parse_text t)"
    using item_line_Some [OF t] by (simp add: item_of_text_parse)
  then show ?thesis using t m by (simp add: grp_def)
qed

section \<open>The claims\<close>

text \<open>
  C6. \<open>deserialize\<close> of \<^verbatim>\<open>"* Todo\n  * Buy milk\n  * **Call mom**"\<close> is the Board with
  exactly one List, named Todo, whose Items are Buy milk with importance 0 and Call mom
  with importance 2, in this order.
\<close>

theorem deserialize_todo_example:
  "deserialize (js ''* Todo\<newline>  * Buy milk\<newline>  * **Call mom**'') =
     \<lparr>lists = [\<lparr>list_name = js ''Todo'',
                items = [\<lparr>item_name = js ''Buy milk'', importance = 0\<rparr>,
                         \<lparr>item_name = js ''Call mom'', importance = 2\<rparr>]\<rparr>]\<rparr>"
  by code_simp

text \<open>
  C9. Every Item of every Board that \<open>deserialize\<close> returns has an importance between 0
  and 3 (an importance is a natural number, so only the upper bound is stated), and the
  item text \<^verbatim>\<open>"****text****"\<close>, with four markers on each side, gets importance 3.
\<close>

theorem importance_clamped:
  "(\<forall>l \<in> set (lists (deserialize s)). \<forall>i \<in> set (items l). importance i \<le> 3) \<and>
   item_of_text (js ''****text****'') = Inr \<lparr>item_name = js ''text'', importance = 3\<rparr>"
proof
  show "\<forall>l \<in> set (lists (deserialize s)). \<forall>i \<in> set (items l). importance i \<le> 3"
    using parsed_importance [OF deserialize_parsed] by blast
  show "item_of_text (js ''****text****'') = Inr \<lparr>item_name = js ''text'', importance = 3\<rparr>"
    by code_simp
qed

theorem importance_clamped_witness:
  "deserialize (js ''* L\<newline>  * ****text****'') =
     \<lparr>lists = [\<lparr>list_name = js ''L'',
                items = [\<lparr>item_name = js ''text'', importance = 3\<rparr>]\<rparr>]\<rparr> \<and>
   list_all (\<lambda>l. list_all (\<lambda>i. importance i \<le> 3) (items l))
     (lists (deserialize (js ''* L\<newline>  * ****text****'')))"
proof
  show "deserialize (js ''* L\<newline>  * ****text****'') =
     \<lparr>lists = [\<lparr>list_name = js ''L'',
                items = [\<lparr>item_name = js ''text'', importance = 3\<rparr>]\<rparr>]\<rparr>"
    by code_simp
  have "\<forall>l \<in> set (lists (deserialize (js ''* L\<newline>  * ****text****''))).
      \<forall>i \<in> set (items l). importance i \<le> 3"
    using importance_clamped [of "js ''* L\<newline>  * ****text****''"] by (rule conjunct1)
  then show "list_all (\<lambda>l. list_all (\<lambda>i. importance i \<le> 3) (items l))
     (lists (deserialize (js ''* L\<newline>  * ****text****'')))"
    by (simp only: list_all_iff)
qed

text \<open>
  C3. For an item line, with \<open>t\<close> the text that \<open>reItem\<close> captures, \<open>reText\<close> matches \<open>t\<close>
  and splits it into three captures \<open>left\<close>, \<open>middle\<close> and \<open>right\<close>: \<open>left\<close> is the run of
  markers at the start of \<open>t\<close>, \<open>right\<close> holds only markers, and \<open>middle\<close> is as short as
  it can be (it does not end with a marker). The Item that is built has the name
  \<open>middle\<close> and the importance \<open>min 3 (min (length left) (length right))\<close>, and it is this
  Item that \<open>deserialize\<close> appends. The text \<^verbatim>\<open>"**text*"\<close> gets importance 1, and in
  \<^verbatim>\<open>"*_text_*"\<close> the two kinds of marker count alike.
\<close>

theorem item_text_decomposition:
  "(\<forall>l matchItem t m.
      js_match l reItem = Some matchItem \<and> grp matchItem 1 = Some t \<longrightarrow>
      (\<exists>left middle right.
         js_match t reText = Some [Some t, Some left, Some middle, Some right] \<and>
         t = left @ middle @ right \<and>
         left = takeWhile (cls_match Marker) t \<and>
         list_all (cls_match Marker) right \<and>
         (middle = [] \<or> \<not> cls_match Marker (last middle)) \<and>
         item_of_text t =
           Inr \<lparr>item_name = middle, importance = min 3 (min (length left) (length right))\<rparr> \<and>
         (lists m \<noteq> [] \<longrightarrow>
          deserialize_line l m =
            Inr (m\<lparr>lists := butlast (lists m) @
                   [last (lists m)\<lparr>items := items (last (lists m)) @
                      [\<lparr>item_name = middle,
                        importance = min 3 (min (length left) (length right))\<rparr>]\<rparr>]\<rparr>)))) \<and>
   item_of_text (js ''**text*'') = Inr \<lparr>item_name = js ''text'', importance = 1\<rparr> \<and>
   item_of_text (js ''*_text_*'') = Inr \<lparr>item_name = js ''text'', importance = 2\<rparr>"
proof (intro conjI allI impI)
  fix l matchItem t m
  assume h: "js_match l reItem = Some matchItem \<and> grp matchItem 1 = Some t"
  then have il: "item_line l = Some t"
    by (auto simp: js_match_reItem_line grp_def)
  then have dot: "list_all (cls_match AnyChar) t"
    using item_line_Some by blast
  let ?left = "takeWhile (cls_match Marker) t"
  let ?x = "dropWhile (cls_match Marker) t"
  have 1: "js_match t reText = Some [Some t, Some ?left, Some (mid ?x), Some (trail ?x)]"
    using dot by (rule js_match_reText)
  have 2: "t = ?left @ mid ?x @ trail ?x"
    by (simp add: mid_append_trail)
  have 3: "item_of_text t =
      Inr \<lparr>item_name = mid ?x, importance = min 3 (min (length ?left) (length (trail ?x)))\<rparr>"
    using dot by (simp add: item_of_text_parse parse_text_def)
  have 4: "lists m \<noteq> [] \<longrightarrow>
          deserialize_line l m =
            Inr (m\<lparr>lists := butlast (lists m) @
                   [last (lists m)\<lparr>items := items (last (lists m)) @
                      [\<lparr>item_name = mid ?x,
                        importance = min 3 (min (length ?left) (length (trail ?x)))\<rparr>]\<rparr>]\<rparr>)"
    using il item_line_not_list_line [OF il]
    by (simp add: deserialize_line_step step_def parse_text_def)
  show "\<exists>left middle right.
         js_match t reText = Some [Some t, Some left, Some middle, Some right] \<and>
         t = left @ middle @ right \<and>
         left = takeWhile (cls_match Marker) t \<and>
         list_all (cls_match Marker) right \<and>
         (middle = [] \<or> \<not> cls_match Marker (last middle)) \<and>
         item_of_text t =
           Inr \<lparr>item_name = middle, importance = min 3 (min (length left) (length right))\<rparr> \<and>
         (lists m \<noteq> [] \<longrightarrow>
          deserialize_line l m =
            Inr (m\<lparr>lists := butlast (lists m) @
                   [last (lists m)\<lparr>items := items (last (lists m)) @
                      [\<lparr>item_name = middle,
                        importance = min 3 (min (length left) (length right))\<rparr>]\<rparr>]\<rparr>))"
    using 1 2 3 4 trail_markers [of ?x] mid_last [of ?x] by blast
next
  show "item_of_text (js ''**text*'') = Inr \<lparr>item_name = js ''text'', importance = 1\<rparr>"
    by code_simp
next
  show "item_of_text (js ''*_text_*'') = Inr \<lparr>item_name = js ''text'', importance = 2\<rparr>"
    by code_simp
qed

theorem item_text_decomposition_witness:
  "js_match (js ''  * **text*'') reItem =
     Some [Some (js ''  * **text*''), Some (js ''**text*'')] \<and>
   grp [Some (js ''  * **text*''), Some (js ''**text*'')] 1 = Some (js ''**text*'') \<and>
   lists \<lparr>lists = [\<lparr>list_name = js ''L'', items = []\<rparr>]\<rparr> \<noteq> [] \<and>
   (\<exists>left middle right.
      js_match (js ''**text*'') reText =
        Some [Some (js ''**text*''), Some left, Some middle, Some right] \<and>
      js ''**text*'' = left @ middle @ right \<and>
      deserialize_line (js ''  * **text*'') \<lparr>lists = [\<lparr>list_name = js ''L'', items = []\<rparr>]\<rparr> =
        Inr \<lparr>lists = [\<lparr>list_name = js ''L'',
                       items = [\<lparr>item_name = middle,
                                 importance = min 3 (min (length left) (length right))\<rparr>]\<rparr>]\<rparr>)"
proof -
  let ?l = "js ''  * **text*''"
  let ?t = "js ''**text*''"
  let ?m = "\<lparr>lists = [\<lparr>list_name = js ''L'', items = []\<rparr>]\<rparr>"
  have h1: "js_match ?l reItem = Some [Some ?l, Some ?t]"
    by code_simp
  have h2: "grp [Some ?l, Some ?t] 1 = Some ?t"
    by (simp add: grp_def)
  have h3: "lists ?m \<noteq> []"
    by simp
  have "\<exists>left middle right.
         js_match ?t reText = Some [Some ?t, Some left, Some middle, Some right] \<and>
         ?t = left @ middle @ right \<and>
         left = takeWhile (cls_match Marker) ?t \<and>
         list_all (cls_match Marker) right \<and>
         (middle = [] \<or> \<not> cls_match Marker (last middle)) \<and>
         item_of_text ?t =
           Inr \<lparr>item_name = middle, importance = min 3 (min (length left) (length right))\<rparr> \<and>
         (lists ?m \<noteq> [] \<longrightarrow>
          deserialize_line ?l ?m =
            Inr (?m\<lparr>lists := butlast (lists ?m) @
                   [last (lists ?m)\<lparr>items := items (last (lists ?m)) @
                      [\<lparr>item_name = middle,
                        importance = min 3 (min (length left) (length right))\<rparr>]\<rparr>]\<rparr>))"
    using item_text_decomposition h1 h2 by blast
  then obtain left middle right where
    a: "js_match ?t reText = Some [Some ?t, Some left, Some middle, Some right]" and
    b: "?t = left @ middle @ right" and
    c: "lists ?m \<noteq> [] \<longrightarrow>
          deserialize_line ?l ?m =
            Inr (?m\<lparr>lists := butlast (lists ?m) @
                   [last (lists ?m)\<lparr>items := items (last (lists ?m)) @
                      [\<lparr>item_name = middle,
                        importance = min 3 (min (length left) (length right))\<rparr>]\<rparr>]\<rparr>)"
    by blast
  have "deserialize_line ?l ?m =
        Inr \<lparr>lists = [\<lparr>list_name = js ''L'',
                       items = [\<lparr>item_name = middle,
                                 importance = min 3 (min (length left) (length right))\<rparr>]\<rparr>]\<rparr>"
    using c h3 by simp
  then show ?thesis using h1 h2 h3 a b by blast
qed

text \<open>
  C4. \<open>deserialize\<close> never hands an error to its caller. On every input string the
  \<^verbatim>\<open>try\<close> block itself ends normally, and its Board is the result; whatever is thrown,
  the handler answers the empty Board; and an input none of whose lines matches a bullet
  pattern gives the empty Board, as do the empty string and
  \<^verbatim>\<open>"random prose\nwith no bullets"\<close>.
\<close>

theorem deserialize_never_throws:
  "(\<exists>m. deserialize_try s = Inr m \<and> deserialize s = m) \<and>
   (\<forall>ex. getLength (catch_all (Inl ex)) = 0) \<and>
   ((\<forall>l \<in> set (split_nl s). js_match l reList = None \<and> js_match l reItem = None) \<longrightarrow>
      getLength (deserialize s) = 0) \<and>
   getLength (deserialize (js '''')) = 0 \<and>
   getLength (deserialize (js ''random prose\<newline>with no bullets'')) = 0"
proof (intro conjI allI impI)
  show "\<exists>m. deserialize_try s = Inr m \<and> deserialize s = m"
    by (simp add: deserialize_try_Inr)
next
  fix ex
  show "getLength (catch_all (Inl ex)) = 0"
    by (simp add: catch_all_def getLength_def new_KanbanModel_def)
next
  assume "\<forall>l \<in> set (split_nl s). js_match l reList = None \<and> js_match l reItem = None"
  then have "\<forall>l \<in> set (split_nl s).
      list_line l = None \<and> (item_line l = None \<or> lists new_KanbanModel = [])"
    by (simp add: js_match_reList_None js_match_reItem_None)
  then have "fold step (split_nl s) new_KanbanModel = new_KanbanModel"
    by (rule fold_step_inert)
  then show "getLength (deserialize s) = 0"
    by (simp add: deserialize_fold getLength_def new_KanbanModel_def)
next
  show "getLength (deserialize (js '''')) = 0"
    by code_simp
next
  show "getLength (deserialize (js ''random prose\<newline>with no bullets'')) = 0"
    by code_simp
qed

theorem deserialize_never_throws_witness:
  "list_all (\<lambda>l. js_match l reList = None \<and> js_match l reItem = None)
     (split_nl (js ''random prose\<newline>with no bullets'')) \<and>
   deserialize_try (js ''random prose\<newline>with no bullets'') = Inr new_KanbanModel \<and>
   getLength (deserialize (js ''random prose\<newline>with no bullets'')) = 0"
proof -
  let ?s = "js ''random prose\<newline>with no bullets''"
  have h: "list_all (\<lambda>l. js_match l reList = None \<and> js_match l reItem = None) (split_nl ?s)"
    by code_simp
  then have h': "\<forall>l \<in> set (split_nl ?s). js_match l reList = None \<and> js_match l reItem = None"
    by (simp only: list_all_iff)
  have len: "getLength (deserialize ?s) = 0"
    using deserialize_never_throws [of ?s] h' by blast
  have "\<exists>m. deserialize_try ?s = Inr m \<and> deserialize ?s = m"
    using deserialize_never_throws [of ?s] by blast
  then obtain m where m: "deserialize_try ?s = Inr m" "deserialize ?s = m"
    by blast
  then have "lists m = []" using len by (simp add: getLength_def)
  then have "m = new_KanbanModel" by (simp add: new_KanbanModel_def)
  then show ?thesis using h len m by simp
qed

text \<open>
  C8. A line that matches \<open>reItem\<close> appends one Item, built from the text the pattern
  captures, to the last List of the Board that \<open>deserialize\<close> has built from the lines
  before it, and changes nothing when that Board has no List yet; the lines after it go
  on from the Board so changed. So the lines that come before the first list line, item
  lines among them, add nothing to the result. The callback itself does the same on any
  Board. Four inputs are evaluated: an Item appended to the only List, to the second of
  two Lists, items before the first list line, and an item line alone.
\<close>

theorem item_line_attribution:
  "(\<forall>s l matchItem.
      nl \<notin> set l \<and> js_match l reItem = Some matchItem \<longrightarrow>
      (lists (deserialize s) = [] \<longrightarrow> deserialize (s @ nl # l) = deserialize s) \<and>
      (lists (deserialize s) \<noteq> [] \<longrightarrow>
         (\<exists>t i. grp matchItem 1 = Some t \<and> item_of_text t = Inr i \<and>
                deserialize (s @ nl # l) =
                  (deserialize s)\<lparr>lists := butlast (lists (deserialize s)) @
                     [last (lists (deserialize s))
                        \<lparr>items := items (last (lists (deserialize s))) @ [i]\<rparr>]\<rparr>))) \<and>
   (\<forall>s s'. deserialize (s @ nl # s') =
             catch_all (forEach_line (split_nl s') (deserialize s))) \<and>
   (\<forall>l m matchItem.
      js_match l reItem = Some matchItem \<longrightarrow>
      (lists m = [] \<longrightarrow> deserialize_line l m = Inr m) \<and>
      (lists m \<noteq> [] \<longrightarrow>
         (\<exists>t i. grp matchItem 1 = Some t \<and> item_of_text t = Inr i \<and>
                deserialize_line l m =
                  Inr (m\<lparr>lists := butlast (lists m) @
                         [last (lists m)\<lparr>items := items (last (lists m)) @ [i]\<rparr>]\<rparr>)))) \<and>
   (\<forall>s1 s2.
      (\<forall>l \<in> set (split_nl s1). js_match l reList = None) \<longrightarrow>
      deserialize (s1 @ nl # s2) = deserialize s2) \<and>
   deserialize (js ''* L\<newline>  * a\<newline>  - b'') =
     \<lparr>lists = [\<lparr>list_name = js ''L'',
                items = [\<lparr>item_name = js ''a'', importance = 0\<rparr>,
                         \<lparr>item_name = js ''b'', importance = 0\<rparr>]\<rparr>]\<rparr> \<and>
   deserialize (js ''* K\<newline>* L\<newline>  * a'') =
     \<lparr>lists = [\<lparr>list_name = js ''K'', items = []\<rparr>,
               \<lparr>list_name = js ''L'', items = [\<lparr>item_name = js ''a'', importance = 0\<rparr>]\<rparr>]\<rparr> \<and>
   deserialize (js ''  * orphan\<newline>prose\<newline>* L\<newline>  * a'') =
     \<lparr>lists = [\<lparr>list_name = js ''L'', items = [\<lparr>item_name = js ''a'', importance = 0\<rparr>]\<rparr>]\<rparr> \<and>
   deserialize (js ''  * orphan'') = \<lparr>lists = []\<rparr>"
proof (intro conjI allI impI)
  fix s l matchItem
  assume h: "nl \<notin> set l \<and> js_match l reItem = Some matchItem"
  then obtain t where t: "item_line l = Some t" "grp matchItem 1 = Some t"
      "item_of_text t = Inr (parse_text t)"
    using js_match_reItem_text by blast
  have app: "deserialize (s @ nl # l) = step l (deserialize s)"
    using h by (simp add: deserialize_append_line)
  show "deserialize (s @ nl # l) = deserialize s" if "lists (deserialize s) = []"
    using that app t(1) by (simp add: step_item_line)
  show "\<exists>t i. grp matchItem 1 = Some t \<and> item_of_text t = Inr i \<and>
                deserialize (s @ nl # l) =
                  (deserialize s)\<lparr>lists := butlast (lists (deserialize s)) @
                     [last (lists (deserialize s))
                        \<lparr>items := items (last (lists (deserialize s))) @ [i]\<rparr>]\<rparr>"
    if "lists (deserialize s) \<noteq> []"
  proof -
    have "deserialize (s @ nl # l) =
        (deserialize s)\<lparr>lists := butlast (lists (deserialize s)) @
           [last (lists (deserialize s))
              \<lparr>items := items (last (lists (deserialize s))) @ [parse_text t]\<rparr>]\<rparr>"
      using that app t(1) by (simp add: step_item_line)
    then show ?thesis using t(2,3) by blast
  qed
next
  fix s s'
  show "deserialize (s @ nl # s') = catch_all (forEach_line (split_nl s') (deserialize s))"
    by (rule deserialize_continue)
next
  fix l and m :: KanbanModel and matchItem
  assume "js_match l reItem = Some matchItem"
  then obtain t where t: "item_line l = Some t" "grp matchItem 1 = Some t"
      "item_of_text t = Inr (parse_text t)"
    using js_match_reItem_text by blast
  show "deserialize_line l m = Inr m" if "lists m = []"
    using that t(1) by (simp add: deserialize_line_step step_item_line)
  show "\<exists>t i. grp matchItem 1 = Some t \<and> item_of_text t = Inr i \<and>
                deserialize_line l m =
                  Inr (m\<lparr>lists := butlast (lists m) @
                         [last (lists m)\<lparr>items := items (last (lists m)) @ [i]\<rparr>]\<rparr>)"
    if "lists m \<noteq> []"
  proof -
    have "deserialize_line l m =
        Inr (m\<lparr>lists := butlast (lists m) @
               [last (lists m)\<lparr>items := items (last (lists m)) @ [parse_text t]\<rparr>]\<rparr>)"
      using that t(1) by (simp add: deserialize_line_step step_item_line)
    then show ?thesis using t(2,3) by blast
  qed
next
  fix s1 s2
  assume "\<forall>l \<in> set (split_nl s1). js_match l reList = None"
  then have "\<forall>l \<in> set (split_nl s1).
      list_line l = None \<and> (item_line l = None \<or> lists new_KanbanModel = [])"
    by (simp add: js_match_reList_None new_KanbanModel_def)
  then have "fold step (split_nl s1) new_KanbanModel = new_KanbanModel"
    by (rule fold_step_inert)
  then show "deserialize (s1 @ nl # s2) = deserialize s2"
    by (simp add: deserialize_fold split_nl_append)
next
  show "deserialize (js ''* L\<newline>  * a\<newline>  - b'') =
     \<lparr>lists = [\<lparr>list_name = js ''L'',
                items = [\<lparr>item_name = js ''a'', importance = 0\<rparr>,
                         \<lparr>item_name = js ''b'', importance = 0\<rparr>]\<rparr>]\<rparr>"
    by code_simp
next
  show "deserialize (js ''* K\<newline>* L\<newline>  * a'') =
     \<lparr>lists = [\<lparr>list_name = js ''K'', items = []\<rparr>,
               \<lparr>list_name = js ''L'', items = [\<lparr>item_name = js ''a'', importance = 0\<rparr>]\<rparr>]\<rparr>"
    by code_simp
next
  show "deserialize (js ''  * orphan\<newline>prose\<newline>* L\<newline>  * a'') =
     \<lparr>lists = [\<lparr>list_name = js ''L'', items = [\<lparr>item_name = js ''a'', importance = 0\<rparr>]\<rparr>]\<rparr>"
    by code_simp
next
  show "deserialize (js ''  * orphan'') = \<lparr>lists = []\<rparr>"
    by code_simp
qed

theorem item_line_attribution_witness:
  "nl \<notin> set (js ''  - b'') \<and>
   js_match (js ''  - b'') reItem = Some [Some (js ''  - b''), Some (js ''b'')] \<and>
   lists (deserialize (js ''* K\<newline>* L\<newline>  * a'')) \<noteq> [] \<and>
   deserialize (js ''* K\<newline>* L\<newline>  * a'' @ nl # js ''  - b'') =
     \<lparr>lists = [\<lparr>list_name = js ''K'', items = []\<rparr>,
               \<lparr>list_name = js ''L'',
                items = [\<lparr>item_name = js ''a'', importance = 0\<rparr>,
                         \<lparr>item_name = js ''b'', importance = 0\<rparr>]\<rparr>]\<rparr> \<and>
   lists (deserialize (js ''prose'')) = [] \<and>
   deserialize (js ''prose'' @ nl # js ''  - b'') = \<lparr>lists = []\<rparr> \<and>
   list_all (\<lambda>l. js_match l reList = None) (split_nl (js ''  * orphan\<newline>prose'')) \<and>
   deserialize (js ''  * orphan\<newline>prose'' @ nl # js ''* L\<newline>  * a'') =
     \<lparr>lists = [\<lparr>list_name = js ''L'', items = [\<lparr>item_name = js ''a'', importance = 0\<rparr>]\<rparr>]\<rparr>"
proof -
  let ?l = "js ''  - b''"
  let ?s = "js ''* K\<newline>* L\<newline>  * a''"
  let ?p = "js ''prose''"
  let ?s1 = "js ''  * orphan\<newline>prose''"
  let ?s2 = "js ''* L\<newline>  * a''"
  have h1: "nl \<notin> set ?l" by code_simp
  have h2: "js_match ?l reItem = Some [Some ?l, Some (js ''b'')]" by code_simp
  have v: "deserialize ?s =
     \<lparr>lists = [\<lparr>list_name = js ''K'', items = []\<rparr>,
               \<lparr>list_name = js ''L'', items = [\<lparr>item_name = js ''a'', importance = 0\<rparr>]\<rparr>]\<rparr>"
    by code_simp
  have h3: "lists (deserialize ?s) \<noteq> []" by (simp add: v)
  have "\<exists>t i. grp [Some ?l, Some (js ''b'')] 1 = Some t \<and> item_of_text t = Inr i \<and>
                deserialize (?s @ nl # ?l) =
                  (deserialize ?s)\<lparr>lists := butlast (lists (deserialize ?s)) @
                     [last (lists (deserialize ?s))
                        \<lparr>items := items (last (lists (deserialize ?s))) @ [i]\<rparr>]\<rparr>"
    using item_line_attribution h1 h2 h3 by blast
  then obtain t i where t: "grp [Some ?l, Some (js ''b'')] 1 = Some t"
    and i: "item_of_text t = Inr i"
    and d: "deserialize (?s @ nl # ?l) =
                  (deserialize ?s)\<lparr>lists := butlast (lists (deserialize ?s)) @
                     [last (lists (deserialize ?s))
                        \<lparr>items := items (last (lists (deserialize ?s))) @ [i]\<rparr>]\<rparr>"
    by blast
  have "t = js ''b''" using t by (simp add: grp_def)
  moreover have "item_of_text (js ''b'') = Inr \<lparr>item_name = js ''b'', importance = 0\<rparr>"
    by code_simp
  ultimately have "i = \<lparr>item_name = js ''b'', importance = 0\<rparr>" using i by simp
  then have a: "deserialize (?s @ nl # ?l) =
     \<lparr>lists = [\<lparr>list_name = js ''K'', items = []\<rparr>,
               \<lparr>list_name = js ''L'',
                items = [\<lparr>item_name = js ''a'', importance = 0\<rparr>,
                         \<lparr>item_name = js ''b'', importance = 0\<rparr>]\<rparr>]\<rparr>"
    using d by (simp add: v)
  have h4: "lists (deserialize ?p) = []" by code_simp
  have "deserialize (?p @ nl # ?l) = deserialize ?p"
    using item_line_attribution h1 h2 h4 by blast
  moreover have "deserialize ?p = \<lparr>lists = []\<rparr>" using h4 by (cases "deserialize ?p") simp
  ultimately have b: "deserialize (?p @ nl # ?l) = \<lparr>lists = []\<rparr>" by simp
  have h5: "list_all (\<lambda>l. js_match l reList = None) (split_nl ?s1)" by code_simp
  then have "\<forall>l \<in> set (split_nl ?s1). js_match l reList = None"
    by (simp only: list_all_iff)
  then have "deserialize (?s1 @ nl # ?s2) = deserialize ?s2"
    using item_line_attribution by blast
  moreover have "deserialize ?s2 =
     \<lparr>lists = [\<lparr>list_name = js ''L'', items = [\<lparr>item_name = js ''a'', importance = 0\<rparr>]\<rparr>]\<rparr>"
    by code_simp
  ultimately have c: "deserialize (?s1 @ nl # ?s2) =
     \<lparr>lists = [\<lparr>list_name = js ''L'', items = [\<lparr>item_name = js ''a'', importance = 0\<rparr>]\<rparr>]\<rparr>"
    by simp
  show ?thesis by (intro conjI) (fact h1 h2 h3 a h4 b h5 c)+
qed




text \<open>
  C7. \<open>equals\<close> holds exactly when the two Boards are the same tree: as many Lists, and
  at each index the same name, as many Items, and at each index the same name and
  importance. The order matters at both levels: two distinct Lists, or two distinct
  Items, in swapped order make unequal Boards.
\<close>

theorem equals_deep_ordered:
  "(equals a b \<longleftrightarrow> a = b) \<and>
   (equals a b \<longleftrightarrow>
      length (lists a) = length (lists b) \<and>
      (\<forall>k < length (lists a).
         list_name (lists a ! k) = list_name (lists b ! k) \<and>
         length (items (lists a ! k)) = length (items (lists b ! k)) \<and>
         (\<forall>j < length (items (lists a ! k)).
            item_name (items (lists a ! k) ! j) = item_name (items (lists b ! k) ! j) \<and>
            importance (items (lists a ! k) ! j) = importance (items (lists b ! k) ! j)))) \<and>
   (X \<noteq> Y \<longrightarrow> \<not> equals \<lparr>lists = [X, Y]\<rparr> \<lparr>lists = [Y, X]\<rparr>) \<and>
   (i \<noteq> j \<longrightarrow>
      \<not> equals \<lparr>lists = [\<lparr>list_name = n, items = [i, j]\<rparr>]\<rparr>
               \<lparr>lists = [\<lparr>list_name = n, items = [j, i]\<rparr>]\<rparr>)"
proof (intro conjI)
  show "equals a b \<longleftrightarrow> a = b" by (rule equals_eq)
  have "a = b \<longleftrightarrow> lists a = lists b" by auto
  also have "\<dots> \<longleftrightarrow>
      length (lists a) = length (lists b) \<and>
      (\<forall>k < length (lists a).
         list_name (lists a ! k) = list_name (lists b ! k) \<and>
         length (items (lists a ! k)) = length (items (lists b ! k)) \<and>
         (\<forall>j < length (items (lists a ! k)).
            item_name (items (lists a ! k) ! j) = item_name (items (lists b ! k) ! j) \<and>
            importance (items (lists a ! k) ! j) = importance (items (lists b ! k) ! j)))"
    unfolding list_eq_iff_nth_eq [of "lists a" "lists b"]
    using list_eq_fields by blast
  finally show "equals a b \<longleftrightarrow>
      length (lists a) = length (lists b) \<and>
      (\<forall>k < length (lists a).
         list_name (lists a ! k) = list_name (lists b ! k) \<and>
         length (items (lists a ! k)) = length (items (lists b ! k)) \<and>
         (\<forall>j < length (items (lists a ! k)).
            item_name (items (lists a ! k) ! j) = item_name (items (lists b ! k) ! j) \<and>
            importance (items (lists a ! k) ! j) = importance (items (lists b ! k) ! j)))"
    by (simp only: equals_eq)
  show "X \<noteq> Y \<longrightarrow> \<not> equals \<lparr>lists = [X, Y]\<rparr> \<lparr>lists = [Y, X]\<rparr>"
    by (simp add: equals_eq)
  show "i \<noteq> j \<longrightarrow>
      \<not> equals \<lparr>lists = [\<lparr>list_name = n, items = [i, j]\<rparr>]\<rparr>
               \<lparr>lists = [\<lparr>list_name = n, items = [j, i]\<rparr>]\<rparr>"
    by (simp add: equals_eq)
qed

theorem equals_deep_ordered_witness:
  "\<lparr>list_name = js ''X'', items = []\<rparr> \<noteq> \<lparr>list_name = js ''Y'', items = []\<rparr> \<and>
   \<not> equals \<lparr>lists = [\<lparr>list_name = js ''X'', items = []\<rparr>, \<lparr>list_name = js ''Y'', items = []\<rparr>]\<rparr>
            \<lparr>lists = [\<lparr>list_name = js ''Y'', items = []\<rparr>, \<lparr>list_name = js ''X'', items = []\<rparr>]\<rparr> \<and>
   \<lparr>item_name = js ''a'', importance = 0\<rparr> \<noteq> \<lparr>item_name = js ''a'', importance = 1\<rparr> \<and>
   \<not> equals
      \<lparr>lists = [\<lparr>list_name = js ''X'',
                 items = [\<lparr>item_name = js ''a'', importance = 0\<rparr>,
                          \<lparr>item_name = js ''a'', importance = 1\<rparr>]\<rparr>]\<rparr>
      \<lparr>lists = [\<lparr>list_name = js ''X'',
                 items = [\<lparr>item_name = js ''a'', importance = 1\<rparr>,
                          \<lparr>item_name = js ''a'', importance = 0\<rparr>]\<rparr>]\<rparr> \<and>
   equals \<lparr>lists = [\<lparr>list_name = js ''X'', items = []\<rparr>, \<lparr>list_name = js ''Y'', items = []\<rparr>]\<rparr>
          \<lparr>lists = [\<lparr>list_name = js ''X'', items = []\<rparr>, \<lparr>list_name = js ''Y'', items = []\<rparr>]\<rparr>"
proof -
  let ?X = "\<lparr>list_name = js ''X'', items = []\<rparr>"
  let ?Y = "\<lparr>list_name = js ''Y'', items = []\<rparr>"
  let ?i = "\<lparr>item_name = js ''a'', importance = 0\<rparr>"
  let ?j = "\<lparr>item_name = js ''a'', importance = 1\<rparr>"
  have h1: "?X \<noteq> ?Y" by (simp add: js_def)
  have h2: "?i \<noteq> ?j" by simp
  note t = equals_deep_ordered [of "\<lparr>lists = [?X, ?Y]\<rparr>" "\<lparr>lists = [?X, ?Y]\<rparr>" ?X ?Y ?i ?j "js ''X''"]
  have a: "\<not> equals \<lparr>lists = [?X, ?Y]\<rparr> \<lparr>lists = [?Y, ?X]\<rparr>"
    using t h1 by blast
  have b: "\<not> equals \<lparr>lists = [\<lparr>list_name = js ''X'', items = [?i, ?j]\<rparr>]\<rparr>
                    \<lparr>lists = [\<lparr>list_name = js ''X'', items = [?j, ?i]\<rparr>]\<rparr>"
    using t h2 by blast
  have c: "equals \<lparr>lists = [?X, ?Y]\<rparr> \<lparr>lists = [?X, ?Y]\<rparr>"
    using t by blast
  show ?thesis using h1 h2 a b c by blast
qed

text \<open>
  C2. With indices in range, \<open>moveItem\<close> returns normally, and its Board is the one in
  which the Item at \<open>fromItemIndex\<close> was first removed from the source List and then
  inserted at \<open>toItemIndex\<close> into the destination List; when the two Lists are the same,
  the insertion is into the List as it is after the removal. On a List \<open>[A, B, C]\<close>,
  \<open>moveItem 0 0 0 2\<close> gives \<open>[B, C, A]\<close>; on the Lists \<open>[A]\<close> and \<open>[]\<close>,
  \<open>moveItem 0 0 1 0\<close> gives \<open>[]\<close> and \<open>[A]\<close>.
\<close>

theorem moveItem_remove_then_insert:
  "(in_range m fromListIndex fromItemIndex toListIndex toItemIndex \<longrightarrow>
      moveItem fromListIndex fromItemIndex toListIndex toItemIndex m =
        Inr (moved m (nat fromListIndex) (nat fromItemIndex) (nat toListIndex) (nat toItemIndex)) \<and>
      (\<exists>m'. moveItem fromListIndex fromItemIndex toListIndex toItemIndex m = Inr m' \<and>
            length (lists m') = length (lists m) \<and>
            (toListIndex = fromListIndex \<longrightarrow>
               items (lists m' ! nat fromListIndex) =
                 insert_at (nat toItemIndex)
                   (items (lists m ! nat fromListIndex) ! nat fromItemIndex)
                   (remove_at (nat fromItemIndex) (items (lists m ! nat fromListIndex)))) \<and>
            (toListIndex \<noteq> fromListIndex \<longrightarrow>
               items (lists m' ! nat fromListIndex) =
                 remove_at (nat fromItemIndex) (items (lists m ! nat fromListIndex)) \<and>
               items (lists m' ! nat toListIndex) =
                 insert_at (nat toItemIndex)
                   (items (lists m ! nat fromListIndex) ! nat fromItemIndex)
                   (items (lists m ! nat toListIndex))))) \<and>
   moveItem 0 0 0 2 \<lparr>lists = [\<lparr>list_name = n, items = [A, B, C]\<rparr>]\<rparr> =
     Inr \<lparr>lists = [\<lparr>list_name = n, items = [B, C, A]\<rparr>]\<rparr> \<and>
   moveItem 0 0 1 0 \<lparr>lists = [\<lparr>list_name = n0, items = [A]\<rparr>, \<lparr>list_name = n1, items = []\<rparr>]\<rparr> =
     Inr \<lparr>lists = [\<lparr>list_name = n0, items = []\<rparr>, \<lparr>list_name = n1, items = [A]\<rparr>]\<rparr>"
proof (intro conjI impI)
  assume r: "in_range m fromListIndex fromItemIndex toListIndex toItemIndex"
  let ?m' = "moved m (nat fromListIndex) (nat fromItemIndex) (nat toListIndex) (nat toItemIndex)"
  show eq: "moveItem fromListIndex fromItemIndex toListIndex toItemIndex m = Inr ?m'"
    using r by (rule moveItem_in_range)
  have fl: "nat fromListIndex < length (lists m)" and dl: "nat toListIndex < length (lists m)"
    and nonneg: "0 \<le> fromListIndex" "0 \<le> toListIndex"
    using r by (auto simp: in_range_def)
  have same: "toListIndex = fromListIndex \<longrightarrow>
      items (lists ?m' ! nat fromListIndex) =
        insert_at (nat toItemIndex)
          (items (lists m ! nat fromListIndex) ! nat fromItemIndex)
          (remove_at (nat fromItemIndex) (items (lists m ! nat fromListIndex)))"
    using moved_same_list [OF fl] by simp
  have other: "toListIndex \<noteq> fromListIndex \<longrightarrow>
      items (lists ?m' ! nat fromListIndex) =
        remove_at (nat fromItemIndex) (items (lists m ! nat fromListIndex)) \<and>
      items (lists ?m' ! nat toListIndex) =
        insert_at (nat toItemIndex)
          (items (lists m ! nat fromListIndex) ! nat fromItemIndex)
          (items (lists m ! nat toListIndex))"
  proof
    assume "toListIndex \<noteq> fromListIndex"
    then have "nat toListIndex \<noteq> nat fromListIndex" using nonneg by simp
    then show "items (lists ?m' ! nat fromListIndex) =
        remove_at (nat fromItemIndex) (items (lists m ! nat fromListIndex)) \<and>
      items (lists ?m' ! nat toListIndex) =
        insert_at (nat toItemIndex)
          (items (lists m ! nat fromListIndex) ! nat fromItemIndex)
          (items (lists m ! nat toListIndex))"
      using moved_other_list [OF fl dl] by blast
  qed
  show "\<exists>m'. moveItem fromListIndex fromItemIndex toListIndex toItemIndex m = Inr m' \<and>
            length (lists m') = length (lists m) \<and>
            (toListIndex = fromListIndex \<longrightarrow>
               items (lists m' ! nat fromListIndex) =
                 insert_at (nat toItemIndex)
                   (items (lists m ! nat fromListIndex) ! nat fromItemIndex)
                   (remove_at (nat fromItemIndex) (items (lists m ! nat fromListIndex)))) \<and>
            (toListIndex \<noteq> fromListIndex \<longrightarrow>
               items (lists m' ! nat fromListIndex) =
                 remove_at (nat fromItemIndex) (items (lists m ! nat fromListIndex)) \<and>
               items (lists m' ! nat toListIndex) =
                 insert_at (nat toItemIndex)
                   (items (lists m ! nat fromListIndex) ! nat fromItemIndex)
                   (items (lists m ! nat toListIndex)))"
    using eq same other moved_length [of m] by blast
next
  show "moveItem 0 0 0 2 \<lparr>lists = [\<lparr>list_name = n, items = [A, B, C]\<rparr>]\<rparr> =
     Inr \<lparr>lists = [\<lparr>list_name = n, items = [B, C, A]\<rparr>]\<rparr>"
    by (simp add: moveItem_def getListAt_def getItemAt_def at_index_def removeItemAt_def
          insertItem_def splice_def splice_start_def Let_def)
next
  show "moveItem 0 0 1 0 \<lparr>lists = [\<lparr>list_name = n0, items = [A]\<rparr>, \<lparr>list_name = n1, items = []\<rparr>]\<rparr> =
     Inr \<lparr>lists = [\<lparr>list_name = n0, items = []\<rparr>, \<lparr>list_name = n1, items = [A]\<rparr>]\<rparr>"
    by (simp add: moveItem_def getListAt_def getItemAt_def at_index_def removeItemAt_def
          insertItem_def splice_def splice_start_def Let_def)
qed

theorem moveItem_remove_then_insert_witness:
  "in_range \<lparr>lists = [\<lparr>list_name = js ''L'',
                        items = [\<lparr>item_name = js ''A'', importance = 0\<rparr>,
                                 \<lparr>item_name = js ''B'', importance = 0\<rparr>,
                                 \<lparr>item_name = js ''C'', importance = 0\<rparr>]\<rparr>]\<rparr> 0 0 0 2 \<and>
   moveItem 0 0 0 2
     \<lparr>lists = [\<lparr>list_name = js ''L'',
                items = [\<lparr>item_name = js ''A'', importance = 0\<rparr>,
                         \<lparr>item_name = js ''B'', importance = 0\<rparr>,
                         \<lparr>item_name = js ''C'', importance = 0\<rparr>]\<rparr>]\<rparr> =
     Inr (moved \<lparr>lists = [\<lparr>list_name = js ''L'',
                items = [\<lparr>item_name = js ''A'', importance = 0\<rparr>,
                         \<lparr>item_name = js ''B'', importance = 0\<rparr>,
                         \<lparr>item_name = js ''C'', importance = 0\<rparr>]\<rparr>]\<rparr> 0 0 0 2) \<and>
   moved \<lparr>lists = [\<lparr>list_name = js ''L'',
                items = [\<lparr>item_name = js ''A'', importance = 0\<rparr>,
                         \<lparr>item_name = js ''B'', importance = 0\<rparr>,
                         \<lparr>item_name = js ''C'', importance = 0\<rparr>]\<rparr>]\<rparr> 0 0 0 2 =
     \<lparr>lists = [\<lparr>list_name = js ''L'',
                items = [\<lparr>item_name = js ''B'', importance = 0\<rparr>,
                         \<lparr>item_name = js ''C'', importance = 0\<rparr>,
                         \<lparr>item_name = js ''A'', importance = 0\<rparr>]\<rparr>]\<rparr>"
proof -
  let ?m = "\<lparr>lists = [\<lparr>list_name = js ''L'',
                items = [\<lparr>item_name = js ''A'', importance = 0\<rparr>,
                         \<lparr>item_name = js ''B'', importance = 0\<rparr>,
                         \<lparr>item_name = js ''C'', importance = 0\<rparr>]\<rparr>]\<rparr>"
  have h: "in_range ?m 0 0 0 2"
    by (simp add: in_range_def)
  have "moveItem 0 0 0 2 ?m = Inr (moved ?m (nat 0) (nat 0) (nat 0) (nat 2))"
    using moveItem_remove_then_insert [of ?m 0 0 0 2] h by blast
  then have a: "moveItem 0 0 0 2 ?m = Inr (moved ?m 0 0 0 2)"
    by simp
  have b: "moved ?m 0 0 0 2 =
     \<lparr>lists = [\<lparr>list_name = js ''L'',
                items = [\<lparr>item_name = js ''B'', importance = 0\<rparr>,
                         \<lparr>item_name = js ''C'', importance = 0\<rparr>,
                         \<lparr>item_name = js ''A'', importance = 0\<rparr>]\<rparr>]\<rparr>"
    by (simp add: moved_def Let_def numeral_2_eq_2)
  show ?thesis using h a b by blast
qed

text \<open>
  C10. With indices in range, \<open>moveItem\<close> neither makes, doubles nor loses an Item: the
  multiset of the Items of all Lists, and so their number, is the same after the move.
\<close>

theorem moveItem_preserves_items:
  assumes "in_range m fromListIndex fromItemIndex toListIndex toItemIndex"
  shows "\<exists>m'. moveItem fromListIndex fromItemIndex toListIndex toItemIndex m = Inr m' \<and>
              mset (all_items m') = mset (all_items m) \<and>
              length (all_items m') = length (all_items m)"
proof -
  let ?m' = "moved m (nat fromListIndex) (nat fromItemIndex) (nat toListIndex) (nat toItemIndex)"
  have eq: "moveItem fromListIndex fromItemIndex toListIndex toItemIndex m = Inr ?m'"
    using assms by (rule moveItem_in_range)
  have "nat fromListIndex < length (lists m)" and "nat toListIndex < length (lists m)"
    and "nat fromItemIndex < length (items (lists m ! nat fromListIndex))"
    using assms by (auto simp: in_range_def)
  then have ms: "mset (all_items ?m') = mset (all_items m)"
    by (rule moved_items)
  then have "length (all_items ?m') = length (all_items m)"
    by (rule mset_eq_length)
  then show ?thesis using eq ms by blast
qed

theorem moveItem_preserves_items_witness:
  "in_range \<lparr>lists = [\<lparr>list_name = js ''L0'', items = [\<lparr>item_name = js ''A'', importance = 1\<rparr>]\<rparr>,
                      \<lparr>list_name = js ''L1'', items = []\<rparr>]\<rparr> 0 0 1 0 \<and>
   (\<exists>m'. moveItem 0 0 1 0
            \<lparr>lists = [\<lparr>list_name = js ''L0'', items = [\<lparr>item_name = js ''A'', importance = 1\<rparr>]\<rparr>,
                      \<lparr>list_name = js ''L1'', items = []\<rparr>]\<rparr> = Inr m' \<and>
         mset (all_items m') = {#\<lparr>item_name = js ''A'', importance = 1\<rparr>#})"
proof -
  let ?m = "\<lparr>lists = [\<lparr>list_name = js ''L0'', items = [\<lparr>item_name = js ''A'', importance = 1\<rparr>]\<rparr>,
                      \<lparr>list_name = js ''L1'', items = []\<rparr>]\<rparr>"
  have h: "in_range ?m 0 0 1 0"
    by (simp add: in_range_def)
  have all: "mset (all_items ?m) = {#\<lparr>item_name = js ''A'', importance = 1\<rparr>#}"
    by (simp add: all_items_def)
  obtain m' where "moveItem 0 0 1 0 ?m = Inr m'" and "mset (all_items m') = mset (all_items ?m)"
    using moveItem_preserves_items [OF h] by blast
  then show ?thesis using h all by auto
qed

text \<open>
  C1, as stated, fails: the line \<^verbatim>\<open>"  * * foo"\<close> gives an Item without emphasis
  whose name is \<^verbatim>\<open>" foo"\<close>, \<open>serialize\<close> writes it as \<^verbatim>\<open>"  *  foo"\<close>, and
  reading that back gives the name \<^verbatim>\<open>"foo"\<close>.
\<close>

theorem round_trip_counterexample:
  "\<not> equals (deserialize (serialize (deserialize (js ''* L\<newline>  * * foo''))))
            (deserialize (js ''* L\<newline>  * * foo''))"
  by code_simp

text \<open>
  C1, amended. For a Board \<open>b\<close> that \<open>deserialize\<close> returned,
  \<open>deserialize (serialize b)\<close> equals \<open>b\<close> exactly when no Item of \<open>b\<close> with importance 0
  has a name that begins with white space.
\<close>

theorem round_trip_trimmed:
  assumes "b = deserialize s"
  shows "equals (deserialize (serialize b)) b \<longleftrightarrow>
     (\<forall>l \<in> set (lists b). \<forall>i \<in> set (items l).
        importance i = 0 \<longrightarrow> \<not> starts_with_space (item_name i))"
proof -
  have "parsed_board b"
    using assms by (simp add: deserialize_parsed)
  then show ?thesis
    by (simp only: equals_eq round_trip_iff)
qed

theorem round_trip_trimmed_witness:
  "list_all (\<lambda>l. list_all (\<lambda>i. importance i = 0 \<longrightarrow> \<not> starts_with_space (item_name i)) (items l))
     (lists (deserialize (js ''* Todo\<newline>  * Buy milk\<newline>  * ** Call mom*''))) \<and>
   deserialize (js ''* Todo\<newline>  * Buy milk\<newline>  * ** Call mom*'') =
     \<lparr>lists = [\<lparr>list_name = js ''Todo'',
                items = [\<lparr>item_name = js ''Buy milk'', importance = 0\<rparr>,
                         \<lparr>item_name = js '' Call mom'', importance = 1\<rparr>]\<rparr>]\<rparr> \<and>
   equals (deserialize (serialize (deserialize (js ''* Todo\<newline>  * Buy milk\<newline>  * ** Call mom*''))))
          (deserialize (js ''* Todo\<newline>  * Buy milk\<newline>  * ** Call mom*''))"
proof -
  let ?s = "js ''* Todo\<newline>  * Buy milk\<newline>  * ** Call mom*''"
  have h: "list_all (\<lambda>l. list_all (\<lambda>i. importance i = 0 \<longrightarrow> \<not> starts_with_space (item_name i))
             (items l)) (lists (deserialize ?s))"
    by code_simp
  then have "\<forall>l \<in> set (lists (deserialize ?s)). \<forall>i \<in> set (items l).
           importance i = 0 \<longrightarrow> \<not> starts_with_space (item_name i)"
    by (simp only: list_all_iff)
  then have e: "equals (deserialize (serialize (deserialize ?s))) (deserialize ?s)"
    using round_trip_trimmed [OF refl, of ?s] by blast
  have v: "deserialize ?s =
     \<lparr>lists = [\<lparr>list_name = js ''Todo'',
                items = [\<lparr>item_name = js ''Buy milk'', importance = 0\<rparr>,
                         \<lparr>item_name = js '' Call mom'', importance = 1\<rparr>]\<rparr>]\<rparr>"
    by code_simp
  show ?thesis using h v e by blast
qed

end
